theory Spec2Isabelle
  imports Complex_Main
begin

section \<open>JavaScript numbers\<close>

text \<open>
  A JavaScript number is \<open>NaN\<close>, one of the two infinities, or a finite value. Finite values
  are modelled by the rationals they denote and arithmetic on them is exact: rounding to
  the nearest double and overflow of finite results are not modelled, and \<open>-0\<close> is
  identified with \<open>0\<close> (the program never divides by a value that can be \<open>-0\<close>).
\<close>

datatype number = NaN | PosInf | NegInf | Fin rat

fun js_neg :: "number \<Rightarrow> number" where
  "js_neg NaN = NaN"
| "js_neg PosInf = NegInf"
| "js_neg NegInf = PosInf"
| "js_neg (Fin a) = Fin (- a)"

fun js_add :: "number \<Rightarrow> number \<Rightarrow> number" where
  "js_add NaN y = NaN"
| "js_add x NaN = NaN"
| "js_add PosInf NegInf = NaN"
| "js_add NegInf PosInf = NaN"
| "js_add PosInf y = PosInf"
| "js_add NegInf y = NegInf"
| "js_add (Fin a) PosInf = PosInf"
| "js_add (Fin a) NegInf = NegInf"
| "js_add (Fin a) (Fin b) = Fin (a + b)"

definition js_sub :: "number \<Rightarrow> number \<Rightarrow> number" where
  "js_sub x y = js_add x (js_neg y)"

fun js_mul :: "number \<Rightarrow> number \<Rightarrow> number" where
  "js_mul NaN y = NaN"
| "js_mul x NaN = NaN"
| "js_mul PosInf PosInf = PosInf"
| "js_mul PosInf NegInf = NegInf"
| "js_mul NegInf PosInf = NegInf"
| "js_mul NegInf NegInf = PosInf"
| "js_mul PosInf (Fin b) = (if b = 0 then NaN else if 0 < b then PosInf else NegInf)"
| "js_mul NegInf (Fin b) = (if b = 0 then NaN else if 0 < b then NegInf else PosInf)"
| "js_mul (Fin a) PosInf = (if a = 0 then NaN else if 0 < a then PosInf else NegInf)"
| "js_mul (Fin a) NegInf = (if a = 0 then NaN else if 0 < a then NegInf else PosInf)"
| "js_mul (Fin a) (Fin b) = Fin (a * b)"

text \<open>Division never raises: \<open>0 / 0\<close> is \<open>NaN\<close> and \<open>x / 0\<close> is an infinity.\<close>

fun js_div :: "number \<Rightarrow> number \<Rightarrow> number" where
  "js_div NaN y = NaN"
| "js_div x NaN = NaN"
| "js_div (Fin a) PosInf = Fin 0"
| "js_div (Fin a) NegInf = Fin 0"
| "js_div x PosInf = NaN"
| "js_div x NegInf = NaN"
| "js_div PosInf (Fin b) = (if 0 \<le> b then PosInf else NegInf)"
| "js_div NegInf (Fin b) = (if 0 \<le> b then NegInf else PosInf)"
| "js_div (Fin a) (Fin b) =
     (if b = 0 then (if a = 0 then NaN else if 0 < a then PosInf else NegInf)
      else Fin (a / b))"

text \<open>The relational operator \<open><\<close>: any comparison with \<open>NaN\<close> is false.\<close>

fun js_lt :: "number \<Rightarrow> number \<Rightarrow> bool" where
  "js_lt NaN y = False"
| "js_lt x NaN = False"
| "js_lt x NegInf = False"
| "js_lt PosInf y = False"
| "js_lt NegInf y = True"
| "js_lt (Fin a) PosInf = True"
| "js_lt (Fin a) (Fin b) = (a < b)"

definition isNaN :: "number \<Rightarrow> bool" where
  "isNaN x = (x = NaN)"

section \<open>Strings and number formatting\<close>

text \<open>
  Strings are lists of 8-bit characters, read as the code units U+0000 to U+00FF.
\<close>

definition digit_char :: "nat \<Rightarrow> char" where
  "digit_char d = ''0123456789'' ! d"

text \<open>\<open>String(n)\<close> for a non-negative integer \<open>n\<close>: its decimal digits.\<close>

fun string_of_nat :: "nat \<Rightarrow> string" where
  "string_of_nat n =
     (if n < 10 then [digit_char n]
      else string_of_nat (n div 10) @ [digit_char (n mod 10)])"

declare string_of_nat.simps [simp del]

text \<open>\<open>String.prototype.padStart\<close> with a one-character filler.\<close>

definition padStart :: "nat \<Rightarrow> char \<Rightarrow> string \<Rightarrow> string" where
  "padStart targetLength c s =
     (if targetLength \<le> length s then s else replicate (targetLength - length s) c @ s)"

text \<open>
  \<open>Number.prototype.toFixed(2)\<close>. The sign is split off, the magnitude is rounded to the
  nearest multiple of 1/100 (the larger one on a tie) and printed with two decimals. For
  a magnitude of at least \<open>10^21\<close> the method returns the engine's exponent notation
  instead; that rendering is built into the engine and is taken as the parameter
  \<open>Number_toString\<close>.
\<close>

definition toFixed2 :: "(rat \<Rightarrow> string) \<Rightarrow> number \<Rightarrow> string" where
  "toFixed2 Number_toString x =
     (case x of
        NaN \<Rightarrow> ''NaN''
      | PosInf \<Rightarrow> ''Infinity''
      | NegInf \<Rightarrow> ''-Infinity''
      | Fin r \<Rightarrow>
          if 10 ^ 21 \<le> \<bar>r\<bar> then Number_toString r
          else
            (let n = nat \<lfloor>\<bar>r\<bar> * 100 + 1 / 2\<rfloor>
             in (if r < 0 then ''-'' else '''')
                @ string_of_nat (n div 100) @ ''.''
                @ padStart 2 (CHR ''0'') (string_of_nat (n mod 100))))"

subsection \<open>parseFloat on strings\<close>

definition isWhiteSpace :: "char \<Rightarrow> bool" where
  "isWhiteSpace c =
     (c \<in> set [CHR 0x09, CHR 0x0A, CHR 0x0B, CHR 0x0C, CHR 0x0D, CHR 0x20, CHR 0xA0])"

definition isDigit :: "char \<Rightarrow> bool" where
  "isDigit c = (c \<in> set ''0123456789'')"

definition digit_value :: "char \<Rightarrow> nat" where
  "digit_value c = of_char c - 48"

definition nat_of_digits :: "string \<Rightarrow> nat" where
  "nat_of_digits ds = foldl (\<lambda>a c. 10 * a + digit_value c) 0 ds"

definition pow10 :: "int \<Rightarrow> rat" where
  "pow10 e = (if 0 \<le> e then 10 ^ nat e else 1 / 10 ^ nat (- e))"

text \<open>An optional sign in front of the rest of the text.\<close>

definition strip_sign :: "string \<Rightarrow> bool \<times> string" where
  "strip_sign s =
     (case s of
        [] \<Rightarrow> (False, s)
      | c # r \<Rightarrow>
          if c = CHR ''-'' then (True, r)
          else if c = CHR ''+'' then (False, r)
          else (False, s))"

text \<open>
  The exponent part \<open>e\<close> or \<open>E\<close>, an optional sign and at least one digit; text that is
  not an exponent part leaves the exponent at 0.
\<close>

definition exponent_part :: "string \<Rightarrow> int" where
  "exponent_part s =
     (case s of
        [] \<Rightarrow> 0
      | c # r \<Rightarrow>
          if c = CHR ''e'' \<or> c = CHR ''E'' then
            (let (neg, t) = strip_sign r;
                 ds = takeWhile isDigit t
             in if ds = [] then 0
                else if neg then - int (nat_of_digits ds) else int (nat_of_digits ds))
          else 0)"

text \<open>
  \<open>parseFloat\<close> of a string: leading white space is dropped and the longest prefix that
  is a decimal literal (\<open>Infinity\<close>, or digits with an optional fraction and exponent,
  optionally signed) gives the value; \<open>NaN\<close> when there is no such prefix.
\<close>

definition parseFloat_string :: "string \<Rightarrow> number" where
  "parseFloat_string s =
     (let (neg, u) = strip_sign (dropWhile isWhiteSpace s)
      in if take 8 u = ''Infinity'' then (if neg then NegInf else PosInf)
         else
           (let ip = takeWhile isDigit u;
                r1 = dropWhile isDigit u;
                (fp, r2) =
                  (case r1 of
                     [] \<Rightarrow> ([], r1)
                   | c # r \<Rightarrow>
                       if c = CHR ''.'' then (takeWhile isDigit r, dropWhile isDigit r)
                       else ([], r1))
            in if ip = [] \<and> fp = [] then NaN
               else
                 (let v = of_nat (nat_of_digits (ip @ fp))
                          * pow10 (exponent_part r2 - int (length fp))
                  in Fin (if neg then - v else v))))"

section \<open>Values\<close>

text \<open>
  The values the aggregator receives: what \<open>JSON.parse\<close> produces, and \<open>undefined\<close>.
  An object is an association list in which the first binding of a key is the property.
\<close>

datatype jsval =
    JUndefined
  | JNull
  | JBool bool
  | JNum number
  | JStr string
  | JArr "jsval list"
  | JObj "(string \<times> jsval) list"

datatype js_error =
    Error string
  | TypeError string
  | SystemError string

fun message :: "js_error \<Rightarrow> string" where
  "message (Error m) = m"
| "message (TypeError m) = m"
| "message (SystemError m) = m"

definition truthy :: "jsval \<Rightarrow> bool" where
  "truthy v =
     (case v of
        JUndefined \<Rightarrow> False
      | JNull \<Rightarrow> False
      | JBool b \<Rightarrow> b
      | JNum x \<Rightarrow> x \<noteq> NaN \<and> x \<noteq> Fin 0
      | JStr s \<Rightarrow> s \<noteq> []
      | JArr xs \<Rightarrow> True
      | JObj kvs \<Rightarrow> True)"

definition isArray :: "jsval \<Rightarrow> bool" where
  "isArray v = (case v of JArr xs \<Rightarrow> True | _ \<Rightarrow> False)"

text \<open>
  Property read \<open>v.k\<close> for the property names the program reads (\<open>data\<close>, \<open>status\<close>,
  \<open>power\<close>, \<open>length\<close>). Reading a property of \<open>null\<close> or \<open>undefined\<close> throws a TypeError
  (its message is written as V8 words it); of the names read, arrays and strings have
  \<open>length\<close> only, booleans and numbers none.
\<close>

definition cannot_read :: "string \<Rightarrow> string \<Rightarrow> js_error" where
  "cannot_read what k =
     TypeError (''Cannot read properties of '' @ what @ '' (reading ''
                @ [CHR 0x27] @ k @ [CHR 0x27] @ '')'')"

fun get :: "jsval \<Rightarrow> string \<Rightarrow> js_error + jsval" where
  "get JUndefined k = Inl (cannot_read ''undefined'' k)"
| "get JNull k = Inl (cannot_read ''null'' k)"
| "get (JBool b) k = Inr JUndefined"
| "get (JNum x) k = Inr JUndefined"
| "get (JStr s) k =
     Inr (if k = ''length'' then JNum (Fin (of_nat (length s))) else JUndefined)"
| "get (JArr xs) k =
     Inr (if k = ''length'' then JNum (Fin (of_nat (length xs))) else JUndefined)"
| "get (JObj kvs) k = Inr (case map_of kvs k of Some v \<Rightarrow> v | None \<Rightarrow> JUndefined)"

text \<open>
  The conversion of a value to a string (\<open>ToString\<close>) can throw. An object is converted
  through its \<open>toString\<close> and \<open>valueOf\<close> properties: without an own \<open>toString\<close> property
  the inherited method answers \<open>[object Object]\<close>; an own \<open>toString\<close> property of a parsed
  object is never a function, the inherited \<open>valueOf\<close> returns the object itself and an
  own \<open>valueOf\<close> is no function either, so the conversion ends in a TypeError (its
  message is written as V8 words it). An array converts each element that is not \<open>null\<close>
  or \<open>undefined\<close>, in order, and joins the texts with commas, so it throws what its first
  throwing element throws. The other values always convert.
\<close>

fun ToString_error :: "jsval \<Rightarrow> js_error option"
  and ToString_errors :: "jsval list \<Rightarrow> js_error option" where
  "ToString_error (JObj kvs) =
     (case map_of kvs ''toString'' of
        Some f \<Rightarrow> Some (TypeError ''Cannot convert object to primitive value'')
      | None \<Rightarrow> None)"
| "ToString_error (JArr xs) = ToString_errors xs"
| "ToString_error JUndefined = None"
| "ToString_error JNull = None"
| "ToString_error (JBool b) = None"
| "ToString_error (JNum x) = None"
| "ToString_error (JStr s) = None"
| "ToString_errors [] = None"
| "ToString_errors (x # xs) =
     (case ToString_error x of
        Some err \<Rightarrow> Some err
      | None \<Rightarrow> ToString_errors xs)"

text \<open>
  The number \<open>parseFloat\<close> reads off the string of a value that converts. A number prints
  to a literal that reads back as the same number. An array prints its elements joined
  by commas, \<open>null\<close> and \<open>undefined\<close> elements as the empty text, and a comma ends a numeric
  prefix, so an array reads as its first element does. \<open>undefined\<close>, \<open>null\<close>, \<open>true\<close>,
  \<open>false\<close> and \<open>[object Object]\<close> have no numeric prefix.
\<close>

fun parseFloat_value :: "jsval \<Rightarrow> number" where
  "parseFloat_value (JStr s) = parseFloat_string s"
| "parseFloat_value (JNum x) = x"
| "parseFloat_value (JArr []) = NaN"
| "parseFloat_value (JArr (x # xs)) = parseFloat_value x"
| "parseFloat_value JUndefined = NaN"
| "parseFloat_value JNull = NaN"
| "parseFloat_value (JBool b) = NaN"
| "parseFloat_value (JObj kvs) = NaN"

text \<open>\<open>parseFloat\<close> converts its argument to a string first, then reads the number.\<close>

definition parseFloat :: "jsval \<Rightarrow> js_error + number" where
  "parseFloat v =
     (case ToString_error v of
        Some err \<Rightarrow> Inl err
      | None \<Rightarrow> Inr (parseFloat_value v))"

section \<open>The aggregator\<close>

record summary =
  summary_totalDevices :: nat
  summary_onlineDevices :: nat
  summary_offlineDevices :: nat
  totalPowerKW :: string
  averagePowerKW :: string
  successRate :: string

record aggregated =
  totalDevices :: nat
  onlineDevices :: nat
  offlineDevices :: nat
  totalPower :: number
  devices :: "jsval list"
  summary :: "summary option"

text \<open>The body of the inner \<open>forEach\<close>: one device record.\<close>

definition add_device :: "jsval \<Rightarrow> aggregated \<Rightarrow> js_error + aggregated" where
  "add_device device a =
     (let a1 = a\<lparr>totalDevices := totalDevices a + 1, devices := devices a @ [device]\<rparr>
      in case get device ''status'' of
           Inl e \<Rightarrow> Inl e
         | Inr status \<Rightarrow>
             (let a2 = (if status = JStr ''Online''
                        then a1\<lparr>onlineDevices := onlineDevices a1 + 1\<rparr>
                        else a1\<lparr>offlineDevices := offlineDevices a1 + 1\<rparr>)
              in case get device ''power'' of
                   Inl e \<Rightarrow> Inl e
                 | Inr reading \<Rightarrow>
                     (case parseFloat reading of
                        Inl e \<Rightarrow> Inl e
                      | Inr powerValue \<Rightarrow>
                          if \<not> isNaN powerValue
                          then Inr (a2\<lparr>totalPower := js_add (totalPower a2) powerValue\<rparr>)
                          else Inr a2)))"

fun forEach_device :: "jsval list \<Rightarrow> aggregated \<Rightarrow> js_error + aggregated" where
  "forEach_device [] a = Inr a"
| "forEach_device (device # rest) a =
     (case add_device device a of
        Inl e \<Rightarrow> Inl e
      | Inr a' \<Rightarrow> forEach_device rest a')"

text \<open>
  The body of the outer \<open>forEach\<close>: one response. The guard
  \<open>response && response.data && Array.isArray(response.data)\<close> evaluates left to right
  and stops at the first falsy operand.
\<close>

definition add_response :: "jsval \<Rightarrow> aggregated \<Rightarrow> js_error + aggregated" where
  "add_response response a =
     (if \<not> truthy response then Inr a
      else case get response ''data'' of
             Inl e \<Rightarrow> Inl e
           | Inr d \<Rightarrow>
               if truthy d \<and> isArray d
               then (case d of JArr ds \<Rightarrow> forEach_device ds a | _ \<Rightarrow> Inr a)
               else Inr a)"

fun forEach_response :: "jsval list \<Rightarrow> aggregated \<Rightarrow> js_error + aggregated" where
  "forEach_response [] a = Inr a"
| "forEach_response (response # rest) a =
     (case add_response response a of
        Inl e \<Rightarrow> Inl e
      | Inr a' \<Rightarrow> forEach_response rest a')"

definition initial :: aggregated where
  "initial =
     \<lparr>totalDevices = 0, onlineDevices = 0, offlineDevices = 0, totalPower = Fin 0,
      devices = [], summary = None\<rparr>"

definition summarise :: "(rat \<Rightarrow> string) \<Rightarrow> aggregated \<Rightarrow> summary" where
  "summarise Number_toString a =
     \<lparr>summary_totalDevices = totalDevices a,
      summary_onlineDevices = onlineDevices a,
      summary_offlineDevices = offlineDevices a,
      totalPowerKW = toFixed2 Number_toString (totalPower a),
      averagePowerKW =
        toFixed2 Number_toString
          (js_div (totalPower a) (Fin (of_nat (totalDevices a)))),
      successRate =
        toFixed2 Number_toString
          (js_mul (js_div (Fin (of_nat (onlineDevices a))) (Fin (of_nat (totalDevices a))))
                  (Fin 100))
        @ ''%''\<rparr>"

definition aggregateResults ::
  "(rat \<Rightarrow> string) \<Rightarrow> jsval list \<Rightarrow> js_error + aggregated" where
  "aggregateResults Number_toString allResults =
     (case forEach_response allResults initial of
        Inl e \<Rightarrow> Inl e
      | Inr a \<Rightarrow> Inr (a\<lparr>summary := Some (summarise Number_toString a)\<rparr>))"

section \<open>Serial numbers and batches\<close>

definition generateSerialNumbers :: "nat \<Rightarrow> string list" where
  "generateSerialNumbers count =
     map (\<lambda>i. ''SN-'' @ padStart 3 (CHR ''0'') (string_of_nat i)) [0..<count]"

text \<open>\<open>Array.prototype.slice(start, end)\<close>: a negative index counts from the end, and
  both indices are clamped to the array.\<close>

definition slice :: "'a list \<Rightarrow> int \<Rightarrow> int \<Rightarrow> 'a list" where
  "slice xs start end =
     (let len = int (length xs);
          k = (if start < 0 then max (len + start) 0 else min start len);
          final = (if end < 0 then max (len + end) 0 else min end len)
      in take (nat (final - k)) (drop (nat k) xs))"

text \<open>
  The \<open>for\<close> loop of \<open>createBatches\<close>, with the index \<open>i\<close> and the batches pushed so far.
  The batch size is an integer. The loop need not end, so its result is an option:
  \<open>None\<close> is a run that never returns (the engine would stop it only when memory runs
  out).
\<close>

partial_function (option) createBatches_loop ::
  "'a list \<Rightarrow> int \<Rightarrow> int \<Rightarrow> 'a list list \<Rightarrow> 'a list list option" where
  "createBatches_loop array batchSize i batches =
     (if i < int (length array)
      then createBatches_loop array batchSize (i + batchSize)
             (batches @ [slice array i (i + batchSize)])
      else Some batches)"

declare createBatches_loop.simps [code]

definition createBatches :: "'a list \<Rightarrow> int \<Rightarrow> 'a list list option" where
  "createBatches array batchSize = createBatches_loop array batchSize 0 []"

section \<open>The environment\<close>

text \<open>
  What the program does to the outside is recorded in a world that is passed along: the
  reading of the clock (milliseconds, what \<open>Date.now()\<close> returns), the number of HTTP
  requests sent so far, and the list of effects in the order they happened.
\<close>

datatype effect = Request "string list" | Timer number

record world =
  clock :: rat
  attempts :: nat
  effects :: "effect list"

text \<open>
  One HTTP exchange ends in a response (status code and body) or in an \<open>error\<close> event of
  the request (its message).
\<close>

datatype outcome = Response nat string | RequestError string

text \<open>
  What the outside does is a parameter: the outcome of the \<open>k\<close>-th request, the clock
  reading when that exchange ends (given the reading when it was sent), the clock reading
  when a timer fires (given its delay and the reading when it was set), \<open>JSON.parse\<close>
  (the message of its SyntaxError, or the value), and the exponent notation of
  \<open>toFixed2\<close>.
\<close>

record env =
  transport :: "nat \<Rightarrow> outcome"
  responseAt :: "nat \<Rightarrow> rat \<Rightarrow> rat"
  timerAt :: "number \<Rightarrow> rat \<Rightarrow> rat"
  JSON_parse :: "string \<Rightarrow> string + jsval"
  Number_toString :: "rat \<Rightarrow> string"

definition Date_now :: "world \<Rightarrow> number" where
  "Date_now w = Fin (clock w)"

text \<open>Waiting for \<open>setTimeout(\<dots>, ms)\<close> to fire.\<close>

definition setTimeout :: "env \<Rightarrow> number \<Rightarrow> world \<Rightarrow> world" where
  "setTimeout e ms w =
     w\<lparr>clock := timerAt e ms (clock w), effects := effects w @ [Timer ms]\<rparr>"

text \<open>Sending one request and waiting for its end.\<close>

definition http_request :: "env \<Rightarrow> string list \<Rightarrow> world \<Rightarrow> outcome \<times> world" where
  "http_request e sn_list w =
     (transport e (attempts w),
      w\<lparr>clock := responseAt e (attempts w) (clock w),
        attempts := attempts w + 1,
        effects := effects w @ [Request sn_list]\<rparr>)"

section \<open>The client\<close>

text \<open>
  \<open>fetchDeviceData(serialNumbers, retries)\<close>: the result is the rejection error or the
  resolved value. The signature and the headers of the request are not modelled.
\<close>

function fetchDeviceData ::
  "env \<Rightarrow> string list \<Rightarrow> int \<Rightarrow> world \<Rightarrow> (js_error + jsval) \<times> world" where
  "fetchDeviceData e serialNumbers retries w =
     (if 10 < length serialNumbers
      then (Inl (Error ''Batch size cannot exceed 10 devices''), w)
      else
        (case http_request e serialNumbers w of
           (Response statusCode data, w1) \<Rightarrow>
             if statusCode = 200 then
               (case JSON_parse e data of
                  Inr parsed \<Rightarrow> (Inr parsed, w1)
                | Inl msg \<Rightarrow> (Inl (Error (''Failed to parse response: '' @ msg)), w1))
             else if statusCode = 429 then
               (if 0 < retries
                then fetchDeviceData e serialNumbers (retries - 1)
                       (setTimeout e (Fin 1500) w1)
                else (Inl (Error (''Rate limit exceeded after retries. Status: ''
                                  @ string_of_nat statusCode)), w1))
             else if statusCode = 401 then
               (Inl (Error (''Authentication failed. Status: ''
                            @ string_of_nat statusCode)), w1)
             else
               (if 0 < retries \<and> 500 \<le> statusCode
                then fetchDeviceData e serialNumbers (retries - 1)
                       (setTimeout e (Fin 1000) w1)
                else (Inl (Error (''Request failed. Status: '' @ string_of_nat statusCode
                                  @ '', Response: '' @ data)), w1))
         | (RequestError msg, w1) \<Rightarrow>
             if 0 < retries
             then fetchDeviceData e serialNumbers (retries - 1)
                    (setTimeout e (Fin 1000) w1)
             else (Inl (SystemError msg), w1)))"
  by pat_completeness auto
termination
  by (relation "measure (\<lambda>(e, serialNumbers, retries, w). nat retries)") auto

declare fetchDeviceData.simps [simp del]

text \<open>The default retry budget of the parameter \<open>retries\<close>.\<close>

definition default_retries :: int where
  "default_retries = 3"

section \<open>The rate limiter\<close>

text \<open>
  A work item is a function that, run in a world, settles with a result and leaves a
  world. The limiter's fields are those of the class.
\<close>

type_synonym 'a work = "world \<Rightarrow> (js_error + 'a) \<times> world"

record 'a RateLimiter =
  requestsPerSecond :: number
  minInterval :: number
  lastRequestTime :: number
  queue :: "'a work list"
  processing :: bool

definition new_RateLimiter :: "number \<Rightarrow> 'a RateLimiter" where
  "new_RateLimiter rps =
     \<lparr>requestsPerSecond = rps,
      minInterval = js_div (Fin 1000) rps,
      lastRequestTime = Fin 0,
      queue = [],
      processing = False\<rparr>"

text \<open>
  One admission: when its execution began (the value stored in \<open>lastRequestTime\<close>), the
  delay passed to \<open>sleep\<close> before it if there was one, and how the item settled.
\<close>

record 'a admission =
  started :: number
  waited :: "number option"
  settled :: "js_error + 'a"

text \<open>The \<open>while\<close> loop of \<open>processQueue\<close>.\<close>

function processQueue_loop ::
  "env \<Rightarrow> 'a RateLimiter \<Rightarrow> world \<Rightarrow> 'a admission list \<times> 'a RateLimiter \<times> world" where
  "processQueue_loop e rl w =
     (case queue rl of
        [] \<Rightarrow> ([], rl, w)
      | fn # rest \<Rightarrow>
          (let now = Date_now w;
               timeSinceLastRequest = js_sub now (lastRequestTime rl);
               waitTime = js_sub (minInterval rl) timeSinceLastRequest;
               sleeps = js_lt timeSinceLastRequest (minInterval rl);
               w1 = (if sleeps then setTimeout e waitTime w else w);
               rl1 = rl\<lparr>queue := rest, lastRequestTime := Date_now w1\<rparr>;
               (result, w2) = fn w1;
               (more, rl2, w3) = processQueue_loop e rl1 w2
           in (\<lparr>started = Date_now w1,
                 waited = (if sleeps then Some waitTime else None),
                 settled = result\<rparr> # more, rl2, w3)))"
  by pat_completeness auto
termination
  by (relation "measure (\<lambda>(e, rl, w). length (queue rl))") auto

declare processQueue_loop.simps [simp del]

definition processQueue ::
  "env \<Rightarrow> 'a RateLimiter \<Rightarrow> world \<Rightarrow> 'a admission list \<times> 'a RateLimiter \<times> world" where
  "processQueue e rl w =
     (if processing rl \<or> queue rl = [] then ([], rl, w)
      else
        (let (adms, rl', w') = processQueue_loop e (rl\<lparr>processing := True\<rparr>) w
         in (adms, rl'\<lparr>processing := False\<rparr>, w')))"

text \<open>
  \<open>execute(fn)\<close> puts the item on the queue and calls \<open>processQueue\<close>. The admissions are
  those this call made, in order; the item's own admission is the last of them, and
  there is none when another call is already processing the queue.
\<close>

definition execute ::
  "env \<Rightarrow> 'a work \<Rightarrow> 'a RateLimiter \<Rightarrow> world
     \<Rightarrow> 'a admission list \<times> 'a RateLimiter \<times> world" where
  "execute e fn rl w = processQueue e (rl\<lparr>queue := queue rl @ [fn]\<rparr>) w"

text \<open>Work items submitted one after the other, each awaited before the next.\<close>

fun execute_all ::
  "env \<Rightarrow> 'a work list \<Rightarrow> 'a RateLimiter \<Rightarrow> world
     \<Rightarrow> 'a admission list \<times> 'a RateLimiter \<times> world" where
  "execute_all e [] rl w = ([], rl, w)"
| "execute_all e (fn # rest) rl w =
     (let (adms, rl1, w1) = execute e fn rl w;
          (more, rl2, w2) = execute_all e rest rl1 w1
      in (adms @ more, rl2, w2))"

section \<open>The orchestrator\<close>

record failure =
  batch :: nat
  serialNumbers :: "string list"
  error :: string

record run =
  allResults :: "jsval list"
  errors :: "failure list"
  rateLimiter :: "jsval RateLimiter"

text \<open>
  The body of the \<open>for\<close> loop of \<open>aggregateAllDevices\<close> for the batch at index \<open>i\<close>. The
  \<open>try\<close> block awaits the limiter, pushes the result and then reads
  \<open>result.data.length\<close> and converts it to a string for the log line; whatever is thrown
  on the way is caught and pushed as a failure. Console output is not modelled.
\<close>

text \<open>The \<open>try\<close> block from the point where the awaited promise has settled, and the
  \<open>catch\<close> block.\<close>

definition after_await :: "nat \<Rightarrow> string list \<Rightarrow> js_error + jsval \<Rightarrow> run \<Rightarrow> run" where
  "after_await batchNumber b outcome r =
     (let caught = (\<lambda>err r'. r'\<lparr>errors := errors r' @
                       [\<lparr>batch = batchNumber, serialNumbers = b, error = message err\<rparr>]\<rparr>)
      in case outcome of
           Inl err \<Rightarrow> caught err r
         | Inr result \<Rightarrow>
             (let r2 = r\<lparr>allResults := allResults r @ [result]\<rparr>
              in case get result ''data'' of
                   Inl err \<Rightarrow> caught err r2
                 | Inr d \<Rightarrow>
                     (case get d ''length'' of
                        Inl err \<Rightarrow> caught err r2
                      | Inr n \<Rightarrow>
                          (case ToString_error n of
                             Some err \<Rightarrow> caught err r2
                           | None \<Rightarrow> r2))))"

text \<open>
  \<open>None\<close> is a call that never returns: the promise of \<open>execute\<close> stays pending when the
  call made no admission.
\<close>

definition process_batch ::
  "env \<Rightarrow> nat \<Rightarrow> string list \<Rightarrow> run \<Rightarrow> world \<Rightarrow> (run \<times> world) option" where
  "process_batch e i b r w =
     (let batchNumber = i + 1;
          (adms, rl', w') = execute e (fetchDeviceData e b default_retries) (rateLimiter r) w
      in if adms = [] then None
         else Some (after_await batchNumber b (settled (last adms)) (r\<lparr>rateLimiter := rl'\<rparr>),
                    w'))"

function process_batches ::
  "env \<Rightarrow> string list list \<Rightarrow> nat \<Rightarrow> run \<Rightarrow> world \<Rightarrow> (run \<times> world) option" where
  "process_batches e batches i r w =
     (if i < length batches
      then (case process_batch e i (batches ! i) r w of
              None \<Rightarrow> None
            | Some (r', w') \<Rightarrow> process_batches e batches (i + 1) r' w')
      else Some (r, w))"
  by pat_completeness auto
termination
  by (relation "measure (\<lambda>(e, batches, i, r, w). length batches - i)") auto

declare process_batches.simps [simp del]

record report =
  aggregated :: aggregated
  report_errors :: "failure list"
  batchesProcessed :: nat
  batchesSuccessful :: nat
  batchesFailed :: nat

text \<open>
  \<open>aggregateAllDevices()\<close>: the promise is rejected with an error, fulfilled with the
  report, or (\<open>None\<close>) never settled.
\<close>

definition aggregateAllDevices :: "env \<Rightarrow> world \<Rightarrow> ((js_error + report) \<times> world) option" where
  "aggregateAllDevices e w =
     (case createBatches (generateSerialNumbers 500) 10 of
        None \<Rightarrow> None
      | Some batches \<Rightarrow>
          (case process_batches e batches 0
                  \<lparr>allResults = [], errors = [], rateLimiter = new_RateLimiter (Fin 1)\<rparr> w of
             None \<Rightarrow> None
           | Some (r, w') \<Rightarrow>
               Some (case aggregateResults (Number_toString e) (allResults r) of
                       Inl err \<Rightarrow> Inl err
                     | Inr a \<Rightarrow>
                         Inr \<lparr>aggregated = a,
                              report_errors = errors r,
                              batchesProcessed = length batches,
                              batchesSuccessful = length (allResults r),
                              batchesFailed = length (errors r)\<rparr>,
                     w')))"

section \<open>Notions used in the statements\<close>

text \<open>Cutting a list into consecutive pieces of \<open>k\<close> elements, the last one possibly shorter.\<close>

function chunks :: "nat \<Rightarrow> 'a list \<Rightarrow> 'a list list" where
  "chunks k xs = (if k = 0 \<or> xs = [] then [] else take k xs # chunks k (drop k xs))"
  by pat_completeness auto
termination
  by (relation "measure (\<lambda>(k, xs). length xs)") auto

declare chunks.simps [simp del]

text \<open>
  For the aggregator: the values that have no properties, the device records on which
  the inner loop throws (no properties, or a \<open>power\<close> that does not convert to a string),
  the number read from the \<open>power\<close> field of a device record, whether its \<open>status\<close> is
  \<open>Online\<close>, the device records a response passes to the inner loop, and the running
  totals after a list of records.
\<close>

definition nullish :: "jsval \<Rightarrow> bool" where
  "nullish v = (v = JUndefined \<or> v = JNull)"

definition unreadable :: "jsval \<Rightarrow> bool" where
  "unreadable device =
     (case get device ''power'' of Inl e \<Rightarrow> True | Inr p \<Rightarrow> ToString_error p \<noteq> None)"

definition reading :: "jsval \<Rightarrow> number" where
  "reading device =
     (case get device ''power'' of Inl e \<Rightarrow> NaN | Inr p \<Rightarrow> parseFloat_value p)"

definition online :: "jsval \<Rightarrow> bool" where
  "online device = (get device ''status'' = Inr (JStr ''Online''))"

definition records :: "jsval \<Rightarrow> jsval list" where
  "records response =
     (case response of
        JObj kvs \<Rightarrow> (case map_of kvs ''data'' of Some (JArr ds) \<Rightarrow> ds | _ \<Rightarrow> [])
      | _ \<Rightarrow> [])"

fun tally :: "jsval list \<Rightarrow> aggregated \<Rightarrow> aggregated" where
  "tally [] a = a"
| "tally (d # ds) a =
     tally ds (a\<lparr>totalDevices := totalDevices a + 1,
            devices := devices a @ [d],
            onlineDevices := onlineDevices a + (if online d then 1 else 0),
            offlineDevices := offlineDevices a + (if online d then 0 else 1),
            totalPower := (if isNaN (reading d) then totalPower a
                           else js_add (totalPower a) (reading d))\<rparr>)"

text \<open>A sample rendering for the exponent notation, for closed examples.\<close>

definition sample_Number_toString :: "rat \<Rightarrow> string" where
  "sample_Number_toString r = ''1e+21''"

text \<open>
  A sample environment for closed examples: the requests are answered as the given
  transport says, each after 20 ms; timers fire exactly on time; \<open>JSON.parse\<close> knows the
  text of the empty object.
\<close>

definition sample_env :: "(nat \<Rightarrow> outcome) \<Rightarrow> env" where
  "sample_env t =
     \<lparr>transport = t,
      responseAt = (\<lambda>k now. now + 20),
      timerAt = (\<lambda>ms now. case ms of Fin d \<Rightarrow> now + max d 0 | _ \<Rightarrow> now + 1),
      JSON_parse = (\<lambda>s. if s = ''{}'' then Inr (JObj [])
                         else Inl ''Unexpected end of JSON input''),
      Number_toString = sample_Number_toString\<rparr>"

definition always_respond :: "nat \<Rightarrow> string \<Rightarrow> nat \<Rightarrow> outcome" where
  "always_respond statusCode body k = Response statusCode body"

definition sample_world :: world where
  "sample_world = \<lparr>clock = 1793577600000, attempts = 0, effects = []\<rparr>"

text \<open>
  For the rate limiter. What is assumed of the outside: a timer of \<open>d\<close> ms fires no earlier
  than \<open>d\<close> ms after it is set, and not before it is set; and a work item does not set
  the clock back.
\<close>

definition timers_keep_time :: "env \<Rightarrow> bool" where
  "timers_keep_time e = (\<forall>d now. now \<le> timerAt e (Fin d) now \<and> now + d \<le> timerAt e (Fin d) now)"

definition clock_moves_on :: "'a work \<Rightarrow> bool" where
  "clock_moves_on fn = (\<forall>w. clock w \<le> clock (snd (fn w)))"

text \<open>
  Admission times \<open>ts\<close> that follow a last admission at \<open>l\<close> and a clock reading \<open>c\<close>: each
  is at least \<open>m\<close> after the one before, and not before the reading.
\<close>

fun spaced :: "rat \<Rightarrow> rat \<Rightarrow> rat \<Rightarrow> rat list \<Rightarrow> bool" where
  "spaced m c l [] = True"
| "spaced m c l (t # ts) = (l + m \<le> t \<and> c \<le> t \<and> spaced m t t ts)"


section \<open>Batches\<close>

lemma createBatches_loop_chunks:
  assumes "1 \<le> k" and "0 \<le> i"
  shows "createBatches_loop xs k i acc = Some (acc @ chunks (nat k) (drop (nat i) xs))"
  using assms
proof (induction "length xs - nat i" arbitrary: i acc rule: less_induct)
  case less
  show ?case
  proof (cases "i < int (length xs)")
    case False
    then have "drop (nat i) xs = []" using less.prems by simp
    then show ?thesis using False
      by (simp add: createBatches_loop.simps chunks.simps)
  next
    case True
    have sl: "slice xs i (i + k) = take (nat k) (drop (nat i) xs)"
      using True less.prems
      by (auto simp: slice_def Let_def min_def)
    have ne: "drop (nat i) xs \<noteq> []" using True less.prems by simp
    have dd: "drop (nat (i + k)) xs = drop (nat k) (drop (nat i) xs)"
      using less.prems by (simp add: nat_add_distrib add.commute)
    have "length xs - nat (i + k) < length xs - nat i"
      using True less.prems by linarith
    from less.hyps[OF this] less.prems
    have step: "createBatches_loop xs k (i + k) (acc @ [slice xs i (i + k)])
          = Some ((acc @ [slice xs i (i + k)]) @ chunks (nat k) (drop (nat (i + k)) xs))"
      by simp
    have unf: "createBatches_loop xs k i acc
          = createBatches_loop xs k (i + k) (acc @ [slice xs i (i + k)])"
      using True by (subst createBatches_loop.simps) simp
    have ch: "chunks (nat k) (drop (nat i) xs)
          = take (nat k) (drop (nat i) xs) # chunks (nat k) (drop (nat k) (drop (nat i) xs))"
      using ne less.prems by (subst chunks.simps) simp
    show ?thesis
      using step by (simp add: unf ch sl dd)
  qed
qed

lemma createBatches_chunks:
  "1 \<le> k \<Longrightarrow> createBatches xs k = Some (chunks (nat k) xs)"
  using createBatches_loop_chunks[of k 0 xs "[]"] by (simp add: createBatches_def)

text \<open>With a step that is not positive the index never leaves the array.\<close>

lemma createBatches_loop_stuck:
  assumes "createBatches_loop xs k i acc = Some r"
  shows "k \<le> 0 \<longrightarrow> \<not> i < int (length xs)"
proof (rule createBatches_loop.raw_induct
        [where P = "\<lambda>xs k i acc r. k \<le> 0 \<longrightarrow> \<not> i < int (length xs)", OF _ assms],
       goal_cases)
  case (1 loop xs k i acc r)
  show ?case
  proof (intro impI notI)
    assume k: "k \<le> 0" and lt: "i < int (length xs)"
    then have "i + k < int (length xs)" by simp
    moreover from "1"(2) lt
    have "loop xs k (i + k) (acc @ [slice xs i (i + k)]) = Some r" by simp
    ultimately show False using "1"(1) k by blast
  qed
qed

lemma createBatches_diverges:
  "xs \<noteq> [] \<Longrightarrow> k \<le> 0 \<Longrightarrow> createBatches xs k = None"
  using createBatches_loop_stuck[of xs k 0 "[]"]
  by (cases "createBatches xs k") (auto simp: createBatches_def)

lemma createBatches_empty: "createBatches [] k = Some []"
  by (simp add: createBatches_def createBatches_loop.simps)

lemma concat_chunks: "0 < k \<Longrightarrow> concat (chunks k xs) = xs"
proof (induction k xs rule: chunks.induct)
  case (1 k xs)
  then show ?case by (subst chunks.simps) auto
qed

lemma length_chunks_bounds:
  "0 < k \<Longrightarrow>
     length xs \<le> k * length (chunks k xs) \<and> k * length (chunks k xs) < length xs + k"
proof (induction k xs rule: chunks.induct)
  case (1 k xs)
  show ?case
  proof (cases "xs = []")
    case True
    then show ?thesis using "1.prems" by (subst chunks.simps, subst (2) chunks.simps) simp
  next
    case False
    with "1.IH" "1.prems"
    have ih: "length (drop k xs) \<le> k * length (chunks k (drop k xs))"
             "k * length (chunks k (drop k xs)) < length (drop k xs) + k"
      by simp_all
    have eq: "chunks k xs = take k xs # chunks k (drop k xs)"
      using False "1.prems" by (subst chunks.simps) simp
    have "0 < length xs" using False by simp
    then show ?thesis using ih "1.prems" unfolding eq
      by (cases "k \<le> length xs") (auto simp: algebra_simps)
  qed
qed

lemma chunk_sizes:
  "0 < k \<Longrightarrow> j < length (chunks k xs) \<Longrightarrow>
     (if Suc j < length (chunks k xs) then length (chunks k xs ! j) = k
      else 0 < length (chunks k xs ! j) \<and> length (chunks k xs ! j) \<le> k)"
proof (induction k xs arbitrary: j rule: chunks.induct)
  case (1 k xs)
  have ne: "xs \<noteq> []" using "1.prems" by (subst (asm) chunks.simps) (auto split: if_splits)
  have eq: "chunks k xs = take k xs # chunks k (drop k xs)"
    using ne "1.prems" by (subst chunks.simps) simp
  have tl_ne: "chunks k (drop k xs) \<noteq> [] \<Longrightarrow> k \<le> length xs"
    by (subst (asm) chunks.simps) (auto split: if_splits)
  show ?case
  proof (cases j)
    case 0
    then show ?thesis using ne "1.prems" tl_ne unfolding eq by (auto simp: min_def)
  next
    case (Suc j')
    with "1.prems" have "j' < length (chunks k (drop k xs))" unfolding eq by simp
    from "1.IH"[OF _ "1.prems"(1) this] ne "1.prems"(1) Suc show ?thesis unfolding eq
      by (auto split: if_splits)
  qed
qed

lemma length_chunks_ceiling:
  assumes "0 < k"
  shows "int (length (chunks k xs)) = \<lceil>(of_nat (length xs) :: rat) / of_nat k\<rceil>"
proof (rule sym, rule ceiling_unique)
  from length_chunks_bounds[OF assms, of xs]
  have lo: "length xs \<le> k * length (chunks k xs)"
    and hi: "k * length (chunks k xs) < length xs + k" by simp_all
  have "(of_nat (k * length (chunks k xs)) :: rat) < of_nat (length xs + k)"
    using hi by (simp only: of_nat_less_iff)
  then show "of_int (int (length (chunks k xs))) - 1 < (of_nat (length xs) :: rat) / of_nat k"
    using assms by (simp add: field_simps)
  have "(of_nat (length xs) :: rat) \<le> of_nat (k * length (chunks k xs))"
    using lo by (simp only: of_nat_le_iff)
  then show "(of_nat (length xs) :: rat) / of_nat k \<le> of_int (int (length (chunks k xs)))"
    using assms by (simp add: field_simps)
qed

text \<open>
  C5. For a list of \<open>n\<close> serial numbers and a chunk size \<open>k \<ge> 1\<close>, \<open>createBatches\<close> returns
  \<open>\<lceil>n / k\<rceil>\<close> chunks; every chunk but the last has exactly \<open>k\<close> elements, the last has
  between 1 and \<open>k\<close>; and the chunks concatenated in order are the input list.
\<close>

theorem createBatches_partition:
  assumes "1 \<le> k"
  shows "\<exists>bs. createBatches xs k = Some bs
           \<and> int (length bs) = \<lceil>(of_nat (length xs) :: rat) / of_int k\<rceil>
           \<and> (\<forall>j < length bs.
                 if Suc j < length bs then int (length (bs ! j)) = k
                 else 0 < length (bs ! j) \<and> int (length (bs ! j)) \<le> k)
           \<and> concat bs = xs"
proof -
  have k: "0 < nat k" and ik: "int (nat k) = k" using assms by simp_all
  have "int (length (chunks (nat k) xs)) = \<lceil>(of_nat (length xs) :: rat) / of_int k\<rceil>"
    using length_chunks_ceiling[OF k, of xs] assms by simp
  moreover have "\<forall>j < length (chunks (nat k) xs).
       if Suc j < length (chunks (nat k) xs) then int (length (chunks (nat k) xs ! j)) = k
       else 0 < length (chunks (nat k) xs ! j) \<and> int (length (chunks (nat k) xs ! j)) \<le> k"
  proof (intro allI impI)
    fix j assume "j < length (chunks (nat k) xs)"
    from chunk_sizes[OF k this] assms show
      "if Suc j < length (chunks (nat k) xs) then int (length (chunks (nat k) xs ! j)) = k
       else 0 < length (chunks (nat k) xs ! j) \<and> int (length (chunks (nat k) xs ! j)) \<le> k"
      by (auto split: if_splits)
  qed
  ultimately show ?thesis
    using createBatches_chunks[OF assms, of xs] concat_chunks[OF k, of xs] by simp
qed

theorem createBatches_partition_witness:
  "(1 :: int) \<le> 2 \<and>
   (\<exists>bs. createBatches ''abcde'' 2 = Some bs
      \<and> int (length bs) = \<lceil>(of_nat (length ''abcde'') :: rat) / of_int 2\<rceil>
      \<and> (\<forall>j < length bs.
            if Suc j < length bs then int (length (bs ! j)) = 2
            else 0 < length (bs ! j) \<and> int (length (bs ! j)) \<le> 2)
      \<and> concat bs = ''abcde'')"
  using createBatches_partition[of 2 "''abcde''"] by simp

text \<open>
  C9. \<open>createBatches\<close> returns for every array when \<open>batchSize \<ge> 1\<close>: the index grows by
  \<open>batchSize\<close> in each round. For \<open>batchSize \<le> 0\<close> and a non-empty array the index never
  reaches the length and the loop does not return. So the call returns exactly when
  \<open>batchSize \<ge> 1\<close> or the array is empty.
\<close>

theorem createBatches_terminates_iff:
  "(\<exists>bs. createBatches xs k = Some bs) \<longleftrightarrow> (1 \<le> k \<or> xs = [])"
proof
  assume "\<exists>bs. createBatches xs k = Some bs"
  then show "1 \<le> k \<or> xs = []"
    using createBatches_diverges[of xs k] by (cases "1 \<le> k"; cases "xs = []") auto
next
  assume "1 \<le> k \<or> xs = []"
  then show "\<exists>bs. createBatches xs k = Some bs"
    using createBatches_chunks[of k xs] createBatches_empty[of k] by auto
qed

theorem createBatches_terminates_iff_witness:
  "(\<exists>bs. createBatches ''abc'' 2 = Some bs) \<and> createBatches ''a'' 0 = None
     \<and> createBatches ''a'' (- 1) = None"
  using createBatches_terminates_iff[of "''abc''" 2] createBatches_terminates_iff[of "''a''" 0]
    createBatches_terminates_iff[of "''a''" "- 1"]
  by simp

section \<open>The aggregator's totals\<close>

lemma get_Inr: "\<not> nullish v \<Longrightarrow> \<exists>x. get v k = Inr x"
  by (cases v) (simp_all add: nullish_def)

lemma get_Inr_not_nullish: "get v k = Inr x \<Longrightarrow> \<not> nullish v"
  by (cases v) (simp_all add: nullish_def)

lemma get_Inl_nullish: "get v k = Inl e \<Longrightarrow> nullish v"
  by (cases v) (simp_all add: nullish_def)

lemma unreadable_nullish: "nullish d \<Longrightarrow> unreadable d"
  by (auto simp: nullish_def unreadable_def)

lemma add_device_unreadable: "unreadable d \<Longrightarrow> \<exists>e. add_device d a = Inl e"
proof (cases "nullish d")
  case True
  then show ?thesis by (auto simp: nullish_def add_device_def Let_def)
next
  case False
  assume u: "unreadable d"
  obtain s where s: "get d ''status'' = Inr s" using get_Inr[OF False] by blast
  obtain p where p: "get d ''power'' = Inr p" using get_Inr[OF False] by blast
  from u p obtain err where "ToString_error p = Some err"
    by (auto simp: unreadable_def)
  then show ?thesis
    by (simp add: add_device_def Let_def s p parseFloat_def)
qed

lemma add_device_ok:
  assumes "\<not> unreadable d"
  shows "add_device d a =
     Inr (a\<lparr>totalDevices := totalDevices a + 1,
            devices := devices a @ [d],
            onlineDevices := onlineDevices a + (if online d then 1 else 0),
            offlineDevices := offlineDevices a + (if online d then 0 else 1),
            totalPower := (if isNaN (reading d) then totalPower a
                           else js_add (totalPower a) (reading d))\<rparr>)"
proof -
  have n: "\<not> nullish d" using assms unreadable_nullish by blast
  obtain s where s: "get d ''status'' = Inr s" using get_Inr[OF n] by blast
  obtain p where p: "get d ''power'' = Inr p" using get_Inr[OF n] by blast
  have c: "ToString_error p = None" using assms p by (simp add: unreadable_def)
  show ?thesis
    by (simp add: add_device_def Let_def s p c parseFloat_def online_def reading_def)
qed

lemma forEach_device_ok:
  "\<forall>d \<in> set ds. \<not> unreadable d \<Longrightarrow> forEach_device ds a = Inr (tally ds a)"
  by (induction ds arbitrary: a) (simp_all add: add_device_ok)

lemma forEach_device_Inr:
  "forEach_device ds a = Inr a' \<Longrightarrow> \<forall>d \<in> set ds. \<not> unreadable d"
proof (induction ds arbitrary: a)
  case Nil
  then show ?case by simp
next
  case (Cons d ds)
  show ?case
  proof (cases "unreadable d")
    case True
    then obtain e where "add_device d a = Inl e" using add_device_unreadable by blast
    with Cons.prems show ?thesis by simp
  next
    case False
    with Cons.prems have "forEach_device ds (tally [d] a) = Inr a'"
      by (simp add: add_device_ok)
    from Cons.IH[OF this] False show ?thesis by simp
  qed
qed

lemma forEach_device_append:
  "forEach_device (xs @ ys) a =
     (case forEach_device xs a of Inl e \<Rightarrow> Inl e | Inr a' \<Rightarrow> forEach_device ys a')"
  by (induction xs arbitrary: a) (auto split: sum.splits)

lemma add_response_records: "add_response r a = forEach_device (records r) a"
  by (cases r) (auto simp: add_response_def records_def truthy_def isArray_def
       split: option.splits jsval.splits)

lemma forEach_response_records:
  "forEach_response rs a = forEach_device (concat (map records rs)) a"
  by (induction rs arbitrary: a)
     (auto simp: add_response_records forEach_device_append split: sum.splits)

lemma tally_fields:
  "totalDevices (tally ds a) = totalDevices a + length ds"
  "onlineDevices (tally ds a) = onlineDevices a + length (filter online ds)"
  "offlineDevices (tally ds a) = offlineDevices a + length (filter (\<lambda>d. \<not> online d) ds)"
  "devices (tally ds a) = devices a @ ds"
  "summary (tally ds a) = summary a"
  "totalPower (tally ds a) =
     foldl js_add (totalPower a) (filter (\<lambda>x. \<not> isNaN x) (map reading ds))"
  by (induction ds arbitrary: a) simp_all

lemma aggregateResults_Inr_iff:
  "(\<exists>a. aggregateResults ts rs = Inr a) \<longleftrightarrow> (\<forall>d \<in> set (concat (map records rs)). \<not> unreadable d)"
proof
  assume "\<exists>a. aggregateResults ts rs = Inr a"
  then obtain a' where "forEach_device (concat (map records rs)) initial = Inr a'"
    by (auto simp: aggregateResults_def forEach_response_records split: sum.splits)
  then show "\<forall>d \<in> set (concat (map records rs)). \<not> unreadable d"
    by (rule forEach_device_Inr)
next
  assume "\<forall>d \<in> set (concat (map records rs)). \<not> unreadable d"
  then show "\<exists>a. aggregateResults ts rs = Inr a"
    by (simp add: aggregateResults_def forEach_response_records forEach_device_ok)
qed

lemma aggregateResults_tally:
  assumes "\<forall>d \<in> set (concat (map records rs)). \<not> unreadable d"
  shows "aggregateResults ts rs =
     Inr ((tally (concat (map records rs)) initial)
            \<lparr>summary := Some (summarise ts (tally (concat (map records rs)) initial))\<rparr>)"
  using assms by (simp add: aggregateResults_def forEach_response_records forEach_device_ok)

lemma records_data: "get r ''data'' = Inr (JArr ds) \<Longrightarrow> records r = ds"
  by (cases r) (auto simp: records_def split: option.splits if_splits)

lemma records_cases:
  "records r = [] \<or> (\<exists>ds. get r ''data'' = Inr (JArr ds) \<and> records r = ds)"
  by (cases r) (auto simp: records_def split: option.splits jsval.splits)

lemma records_with_data: "records (JObj ((''data'', JArr ds) # kvs)) = ds"
  by (simp add: records_def)

lemma summarise_zero:
  assumes "totalDevices a = 0" and "onlineDevices a = 0" and "totalPower a = Fin 0"
  shows "averagePowerKW (summarise ts a) = ''NaN''"
    and "successRate (summarise ts a) = ''NaN%''"
  using assms by (simp_all add: summarise_def toFixed2_def)

text \<open>
  C1, as the code has it. When no response carries a device record (every \<open>data\<close> array
  is empty, or the response is skipped), \<open>aggregateResults\<close> raises nothing and returns a
  report whose device count is 0; the division \<open>0 / 0\<close> is not guarded, so the average
  power is printed as \<open>NaN\<close> and the success rate as \<open>NaN%\<close>, not as zero.
\<close>

theorem aggregateResults_no_devices:
  assumes "\<forall>r \<in> set rs. \<forall>ds. get r ''data'' = Inr (JArr ds) \<longrightarrow> ds = []"
  shows "\<exists>a s. aggregateResults ts rs = Inr a \<and> totalDevices a = 0 \<and> summary a = Some s
           \<and> averagePowerKW s = ''NaN'' \<and> successRate s = ''NaN%''"
proof -
  have "records r = []" if "r \<in> set rs" for r
    using records_cases[of r] assms that by auto
  then have c: "concat (map records rs) = []" by simp
  show ?thesis
    using aggregateResults_tally[of rs ts]
    by (simp add: c summarise_zero initial_def)
qed

theorem aggregateResults_no_devices_witness:
  "\<exists>a s. aggregateResults sample_Number_toString [JObj [(''data'', JArr [])], JNull] = Inr a
          \<and> totalDevices a = 0 \<and> summary a = Some s
          \<and> averagePowerKW s = ''NaN'' \<and> successRate s = ''NaN%''"
proof -
  have h: "\<forall>r \<in> set [JObj [(''data'', JArr [])], JNull].
             \<forall>ds. get r ''data'' = Inr (JArr ds) \<longrightarrow> ds = []"
    by simp
  from aggregateResults_no_devices[OF h, of sample_Number_toString] show ?thesis .
qed

text \<open>
  The claim as the specification states it (both values reported as zero) fails on the
  empty list of responses.
\<close>

theorem aggregateResults_zero_counterexample:
  "aggregateResults sample_Number_toString [] =
     Inr \<lparr>totalDevices = 0, onlineDevices = 0, offlineDevices = 0,
          totalPower = Fin 0, devices = [],
          summary = Some \<lparr>summary_totalDevices = 0, summary_onlineDevices = 0,
              summary_offlineDevices = 0, totalPowerKW = ''0.00'',
              averagePowerKW = ''NaN'', successRate = ''NaN%''\<rparr>\<rparr>"
  by code_simp

lemma non_numeric_step:
  assumes p: "get d ''power'' = Inr p" and nan: "parseFloat p = Inr NaN"
    and a0: "aggregateResults ts (pre @ JObj ((''data'', JArr (ds1 @ ds2)) # kvs) # post) = Inr a0"
  shows "\<exists>a1. aggregateResults ts (pre @ JObj ((''data'', JArr (ds1 @ d # ds2)) # kvs) # post)
                 = Inr a1
            \<and> totalDevices a1 = totalDevices a0 + 1
            \<and> onlineDevices a1 = onlineDevices a0
                 + (if get d ''status'' = Inr (JStr ''Online'') then 1 else 0)
            \<and> offlineDevices a1 = offlineDevices a0
                 + (if get d ''status'' = Inr (JStr ''Online'') then 0 else 1)
            \<and> totalPower a1 = totalPower a0
            \<and> map_option totalPowerKW (summary a1) = map_option totalPowerKW (summary a0)"
proof -
  let ?A = "concat (map records pre)" and ?B = "concat (map records post)"
  let ?r0 = "?A @ ds1 @ ds2 @ ?B" and ?r1 = "?A @ ds1 @ d # ds2 @ ?B"
  let ?in0 = "pre @ JObj ((''data'', JArr (ds1 @ ds2)) # kvs) # post"
  let ?in1 = "pre @ JObj ((''data'', JArr (ds1 @ d # ds2)) # kvs) # post"
  have c0: "concat (map records ?in0) = ?r0"
    by (simp add: records_with_data)
  have c1: "concat (map records ?in1) = ?r1"
    by (simp add: records_with_data)
  have ok0: "\<forall>x \<in> set ?r0. \<not> unreadable x"
    using a0 aggregateResults_Inr_iff[of ts ?in0] unfolding c0 by blast
  have pv: "ToString_error p = None" "parseFloat_value p = NaN"
    using nan by (auto simp: parseFloat_def split: option.splits)
  have dn: "\<not> unreadable d" using p pv by (simp add: unreadable_def)
  have ok1: "\<forall>x \<in> set ?r1. \<not> unreadable x" using ok0 dn by auto
  have rd: "isNaN (reading d)" by (simp add: reading_def p pv isNaN_def)
  have e0: "a0 = (tally ?r0 initial)\<lparr>summary := Some (summarise ts (tally ?r0 initial))\<rparr>"
    using aggregateResults_tally[of ?in0 ts] ok0 a0 unfolding c0 by simp
  have e1: "aggregateResults ts ?in1
       = Inr ((tally ?r1 initial)\<lparr>summary := Some (summarise ts (tally ?r1 initial))\<rparr>)"
    using aggregateResults_tally[of ?in1 ts] ok1 unfolding c1 by simp
  have tp: "totalPower (tally ?r1 initial) = totalPower (tally ?r0 initial)"
    using rd by (simp add: tally_fields)
  show ?thesis
    unfolding e1 e0 using rd tp
    by (simp add: tally_fields summarise_def online_def)
qed

text \<open>
  C7. A device record whose \<open>power\<close> reading is not numeric (\<open>parseFloat\<close> gives \<open>NaN\<close>)
  counts as a device and as online or offline, and leaves the total power as it is: put
  into any \<open>data\<close> array of any list of responses, it raises the device count by one and
  the online or the offline count by one, and changes neither \<open>totalPower\<close> nor
  \<open>totalPowerKW\<close>. On the payload of the specification's example the report has 2
  devices, 1 online, 1 offline, total power \<open>2.50\<close>, average power \<open>1.25\<close> and success
  rate \<open>50.00%\<close>.
\<close>

theorem aggregateResults_non_numeric_power:
  "(get d ''power'' = Inr p \<and> parseFloat p = Inr NaN
      \<and> aggregateResults ts (pre @ JObj ((''data'', JArr (ds1 @ ds2)) # kvs) # post) = Inr a0
    \<longrightarrow> (\<exists>a1. aggregateResults ts (pre @ JObj ((''data'', JArr (ds1 @ d # ds2)) # kvs) # post)
                 = Inr a1
            \<and> totalDevices a1 = totalDevices a0 + 1
            \<and> onlineDevices a1 = onlineDevices a0
                 + (if get d ''status'' = Inr (JStr ''Online'') then 1 else 0)
            \<and> offlineDevices a1 = offlineDevices a0
                 + (if get d ''status'' = Inr (JStr ''Online'') then 0 else 1)
            \<and> totalPower a1 = totalPower a0
            \<and> map_option totalPowerKW (summary a1) = map_option totalPowerKW (summary a0)))
   \<and> aggregateResults ts
        [JObj [(''data'',
           JArr [JObj [(''status'', JStr ''Online''), (''power'', JStr ''2.5 kW'')],
                 JObj [(''status'', JStr ''Offline''), (''power'', JStr ''bad'')]])]]
      = Inr \<lparr>totalDevices = 2, onlineDevices = 1, offlineDevices = 1,
             totalPower = Fin (5 / 2),
             devices = [JObj [(''status'', JStr ''Online''), (''power'', JStr ''2.5 kW'')],
                        JObj [(''status'', JStr ''Offline''), (''power'', JStr ''bad'')]],
             summary = Some \<lparr>summary_totalDevices = 2, summary_onlineDevices = 1,
                 summary_offlineDevices = 1, totalPowerKW = ''2.50'',
                 averagePowerKW = ''1.25'', successRate = ''50.00%''\<rparr>\<rparr>"
proof (intro conjI impI)
  assume "get d ''power'' = Inr p \<and> parseFloat p = Inr NaN
      \<and> aggregateResults ts (pre @ JObj ((''data'', JArr (ds1 @ ds2)) # kvs) # post) = Inr a0"
  then show "\<exists>a1. aggregateResults ts (pre @ JObj ((''data'', JArr (ds1 @ d # ds2)) # kvs) # post)
                 = Inr a1
            \<and> totalDevices a1 = totalDevices a0 + 1
            \<and> onlineDevices a1 = onlineDevices a0
                 + (if get d ''status'' = Inr (JStr ''Online'') then 1 else 0)
            \<and> offlineDevices a1 = offlineDevices a0
                 + (if get d ''status'' = Inr (JStr ''Online'') then 0 else 1)
            \<and> totalPower a1 = totalPower a0
            \<and> map_option totalPowerKW (summary a1) = map_option totalPowerKW (summary a0)"
    using non_numeric_step[of d p ts pre ds1 ds2 kvs post a0] by blast
next
  show "aggregateResults ts
        [JObj [(''data'',
           JArr [JObj [(''status'', JStr ''Online''), (''power'', JStr ''2.5 kW'')],
                 JObj [(''status'', JStr ''Offline''), (''power'', JStr ''bad'')]])]]
      = Inr \<lparr>totalDevices = 2, onlineDevices = 1, offlineDevices = 1,
             totalPower = Fin (5 / 2),
             devices = [JObj [(''status'', JStr ''Online''), (''power'', JStr ''2.5 kW'')],
                        JObj [(''status'', JStr ''Offline''), (''power'', JStr ''bad'')]],
             summary = Some \<lparr>summary_totalDevices = 2, summary_onlineDevices = 1,
                 summary_offlineDevices = 1, totalPowerKW = ''2.50'',
                 averagePowerKW = ''1.25'', successRate = ''50.00%''\<rparr>\<rparr>"
    by code_simp
qed

theorem aggregateResults_non_numeric_power_witness:
  "get (JObj [(''status'', JStr ''Offline''), (''power'', JStr ''bad'')]) ''power''
     = Inr (JStr ''bad'')
   \<and> parseFloat (JStr ''bad'') = Inr NaN
   \<and> aggregateResults sample_Number_toString
        [JObj [(''data'',
           JArr [JObj [(''status'', JStr ''Online''), (''power'', JStr ''2.5 kW'')]])]]
      = Inr \<lparr>totalDevices = 1, onlineDevices = 1, offlineDevices = 0,
             totalPower = Fin (5 / 2),
             devices = [JObj [(''status'', JStr ''Online''), (''power'', JStr ''2.5 kW'')]],
             summary = Some \<lparr>summary_totalDevices = 1, summary_onlineDevices = 1,
                 summary_offlineDevices = 0, totalPowerKW = ''2.50'',
                 averagePowerKW = ''2.50'', successRate = ''100.00%''\<rparr>\<rparr>
   \<and> (\<exists>a1. aggregateResults sample_Number_toString
              [JObj [(''data'',
                 JArr [JObj [(''status'', JStr ''Online''), (''power'', JStr ''2.5 kW'')],
                       JObj [(''status'', JStr ''Offline''), (''power'', JStr ''bad'')]])]]
            = Inr a1
          \<and> totalDevices a1 = 2 \<and> onlineDevices a1 = 1 \<and> offlineDevices a1 = 1
          \<and> totalPower a1 = Fin (5 / 2)
          \<and> map_option totalPowerKW (summary a1) = Some ''2.50'')"
proof -
  let ?d1 = "JObj [(''status'', JStr ''Online''), (''power'', JStr ''2.5 kW'')]"
  let ?d = "JObj [(''status'', JStr ''Offline''), (''power'', JStr ''bad'')]"
  let ?a0 = "\<lparr>totalDevices = 1, onlineDevices = 1, offlineDevices = 0,
             totalPower = Fin (5 / 2), devices = [?d1],
             summary = Some \<lparr>summary_totalDevices = 1, summary_onlineDevices = 1,
                 summary_offlineDevices = 0, totalPowerKW = ''2.50'',
                 averagePowerKW = ''2.50'', successRate = ''100.00%''\<rparr>\<rparr>"
  have h1: "get ?d ''power'' = Inr (JStr ''bad'')" by simp
  have h2: "parseFloat (JStr ''bad'') = Inr NaN" by code_simp
  have h3: "aggregateResults sample_Number_toString ([] @ JObj ((''data'', JArr ([?d1] @ [])) # []) # [])
              = Inr ?a0"
    by code_simp
  note step = aggregateResults_non_numeric_power
         [where d = ?d and p = "JStr ''bad''" and ts = sample_Number_toString
            and pre = "[]" and ?ds1.0 = "[?d1]" and ?ds2.0 = "[]" and kvs = "[]" and post = "[]"
            and ?a0.0 = ?a0, THEN conjunct1, rule_format, OF conjI[OF h1 conjI[OF h2 h3]]]
  from step obtain a1 where
    a1: "aggregateResults sample_Number_toString [JObj [(''data'', JArr [?d1, ?d])]] = Inr a1"
    and f: "totalDevices a1 = 2" "onlineDevices a1 = 1" "offlineDevices a1 = 1"
      "totalPower a1 = Fin (5 / 2)" "map_option totalPowerKW (summary a1) = Some ''2.50''"
    by auto
  have h3': "aggregateResults sample_Number_toString [JObj [(''data'', JArr [?d1])]] = Inr ?a0"
    using h3 by simp
  show ?thesis
    using h1 h2 h3' a1 f by blast
qed

lemma unreadable_iff:
  "\<not> unreadable d \<longleftrightarrow> (\<exists>p. get d ''power'' = Inr p \<and> ToString_error p = None)"
  by (cases "get d ''power''") (auto simp: unreadable_def)

lemma in_records_iff:
  "d \<in> set (concat (map records rs))
     \<longleftrightarrow> (\<exists>x \<in> set rs. \<exists>ds. get x ''data'' = Inr (JArr ds) \<and> d \<in> set ds)"
proof
  assume "d \<in> set (concat (map records rs))"
  then obtain x where x: "x \<in> set rs" and d: "d \<in> set (records x)" by auto
  with records_cases[of x] have "get x ''data'' = Inr (JArr (records x))" by auto
  with x d show "\<exists>x \<in> set rs. \<exists>ds. get x ''data'' = Inr (JArr ds) \<and> d \<in> set ds" by blast
next
  assume "\<exists>x \<in> set rs. \<exists>ds. get x ''data'' = Inr (JArr ds) \<and> d \<in> set ds"
  then obtain x ds where x: "x \<in> set rs" and g: "get x ''data'' = Inr (JArr ds)"
    and d: "d \<in> set ds" by blast
  from records_data[OF g] d have "d \<in> set (records x)" by simp
  with x show "d \<in> set (concat (map records rs))" by auto
qed

text \<open>
  C10, as the code has it. An element that is \<open>null\<close> or \<open>undefined\<close>, or whose \<open>data\<close> is
  missing or not an array, is skipped: the outcome is the one for the list without it.
  The function is not total. It returns a report exactly when every entry of every
  \<open>data\<close> array has properties (is not \<open>null\<close> or \<open>undefined\<close>) and a \<open>power\<close> value that
  converts to a string (is not an object with an own \<open>toString\<close> property, nor an array
  that holds one); on any other entry the inner loop throws a TypeError.
\<close>

theorem aggregateResults_skips_malformed:
  "(r = JNull \<or> r = JUndefined \<or> (\<exists>d. get r ''data'' = Inr d \<and> \<not> isArray d)
      \<longrightarrow> aggregateResults ts (xs @ r # ys) = aggregateResults ts (xs @ ys))
   \<and> ((\<exists>a. aggregateResults ts rs = Inr a)
      \<longleftrightarrow> (\<forall>x \<in> set rs. \<forall>ds. get x ''data'' = Inr (JArr ds)
             \<longrightarrow> (\<forall>d \<in> set ds. \<exists>p. get d ''power'' = Inr p \<and> ToString_error p = None)))"
proof (intro conjI impI)
  assume m: "r = JNull \<or> r = JUndefined \<or> (\<exists>d. get r ''data'' = Inr d \<and> \<not> isArray d)"
  have "records r = []"
    using m records_cases[of r] by (auto simp: records_def isArray_def)
  then show "aggregateResults ts (xs @ r # ys) = aggregateResults ts (xs @ ys)"
    by (simp add: aggregateResults_def forEach_response_records)
next
  have "(\<forall>d \<in> set (concat (map records rs)). \<not> unreadable d)
      \<longleftrightarrow> (\<forall>x \<in> set rs. \<forall>ds. get x ''data'' = Inr (JArr ds)
             \<longrightarrow> (\<forall>d \<in> set ds. \<exists>p. get d ''power'' = Inr p \<and> ToString_error p = None))"
    (is "?L \<longleftrightarrow> ?R")
  proof
    assume l: ?L
    show ?R
    proof (intro ballI allI impI)
      fix x ds d
      assume "x \<in> set rs" and "get x ''data'' = Inr (JArr ds)" and "d \<in> set ds"
      then have "d \<in> set (concat (map records rs))"
        using in_records_iff[of d rs] by blast
      with l have "\<not> unreadable d" by blast
      then show "\<exists>p. get d ''power'' = Inr p \<and> ToString_error p = None"
        by (simp only: unreadable_iff)
    qed
  next
    assume r: ?R
    show ?L
    proof
      fix d
      assume "d \<in> set (concat (map records rs))"
      then obtain x ds where "x \<in> set rs" and "get x ''data'' = Inr (JArr ds)"
        and "d \<in> set ds"
        using in_records_iff[of d rs] by blast
      with r have "\<exists>p. get d ''power'' = Inr p \<and> ToString_error p = None" by blast
      then show "\<not> unreadable d" by (simp only: unreadable_iff)
    qed
  qed
  then show "(\<exists>a. aggregateResults ts rs = Inr a)
      \<longleftrightarrow> (\<forall>x \<in> set rs. \<forall>ds. get x ''data'' = Inr (JArr ds)
             \<longrightarrow> (\<forall>d \<in> set ds. \<exists>p. get d ''power'' = Inr p \<and> ToString_error p = None))"
    using aggregateResults_Inr_iff[of ts rs] by simp
qed

theorem aggregateResults_skips_malformed_witness:
  "aggregateResults sample_Number_toString
        ([JObj [(''data'', JArr [JObj [(''status'', JStr ''Online''), (''power'', JNum (Fin 3))]])]]
           @ JNull # [])
      = aggregateResults sample_Number_toString
        ([JObj [(''data'', JArr [JObj [(''status'', JStr ''Online''), (''power'', JNum (Fin 3))]])]]
           @ [])
   \<and> (\<exists>a. aggregateResults sample_Number_toString
              [JObj [(''data'', JArr [JObj [(''status'', JStr ''Online''), (''power'', JNum (Fin 3))]])],
               JNull] = Inr a)
   \<and> (\<nexists>a. aggregateResults sample_Number_toString
              [JObj [(''data'', JArr [JObj [(''power'', JObj [(''toString'', JNum (Fin 1))])]])]]
            = Inr a)"
proof -
  let ?x = "JObj [(''data'', JArr [JObj [(''status'', JStr ''Online''), (''power'', JNum (Fin 3))]])]"
  let ?y = "JObj [(''data'', JArr [JObj [(''power'', JObj [(''toString'', JNum (Fin 1))])]])]"
  have h1: "JNull = JNull \<or> JNull = JUndefined
              \<or> (\<exists>d. get JNull ''data'' = Inr d \<and> \<not> isArray d)"
    by simp
  have h2: "\<forall>x \<in> set [?x, JNull].
         \<forall>ds. get x ''data'' = Inr (JArr ds)
           \<longrightarrow> (\<forall>d \<in> set ds. \<exists>p. get d ''power'' = Inr p \<and> ToString_error p = None)"
    by simp
  have h3: "\<not> (\<forall>x \<in> set [?y].
         \<forall>ds. get x ''data'' = Inr (JArr ds)
           \<longrightarrow> (\<forall>d \<in> set ds. \<exists>p. get d ''power'' = Inr p \<and> ToString_error p = None))"
    by simp
  from aggregateResults_skips_malformed
         [where r = JNull and ts = sample_Number_toString and xs = "[?x]" and ys = "[]"
            and rs = "[?x, JNull]"]
       aggregateResults_skips_malformed
         [where r = JNull and ts = sample_Number_toString and xs = "[?x]" and ys = "[]"
            and rs = "[?y]"]
    h1 h2 h3
  show ?thesis by blast
qed

text \<open>
  A \<open>power\<close> value that is an object with an own \<open>toString\<close> property: \<open>parseFloat\<close> throws.
\<close>

lemma aggregateResults_toString_example:
  "aggregateResults sample_Number_toString
     [JObj [(''data'',
        JArr [JObj [(''status'', JStr ''Online''),
                    (''power'', JObj [(''toString'', JNum (Fin 1))])]])]]
     = Inl (TypeError ''Cannot convert object to primitive value'')"
  by code_simp

text \<open>
  The claim as stated (total over arbitrary input lists) fails on a response whose
  \<open>data\<close> array holds \<open>null\<close>: reading \<open>device.status\<close> throws.
\<close>

theorem aggregateResults_total_counterexample:
  "aggregateResults sample_Number_toString [JObj [(''data'', JArr [JNull])]]
     = Inl (cannot_read ''null'' ''status'')"
  by code_simp

section \<open>The client's retries\<close>

lemma string_of_nat_429: "string_of_nat 429 = ''429''"
  by (simp add: string_of_nat.simps digit_char_def)

lemma string_of_nat_401: "string_of_nat 401 = ''401''"
  by (simp add: string_of_nat.simps digit_char_def)

lemma fetch_429_general:
  assumes len: "length sns \<le> 10" and all: "\<forall>k. \<exists>body. transport e k = Response 429 body"
  shows "\<exists>w'. fetchDeviceData e sns (int n) w
           = (Inl (Error ''Rate limit exceeded after retries. Status: 429''), w')
         \<and> attempts w' = attempts w + n + 1
         \<and> effects w' = effects w @ concat (replicate n [Request sns, Timer (Fin 1500)])
                           @ [Request sns]"
proof (induction n arbitrary: w)
  case 0
  from all obtain body where b: "transport e (attempts w) = Response 429 body" by blast
  show ?case
    using len by (subst fetchDeviceData.simps) (simp add: http_request_def b string_of_nat_429)
next
  case (Suc n)
  from all obtain body where b: "transport e (attempts w) = Response 429 body" by blast
  let ?w1 = "w\<lparr>clock := responseAt e (attempts w) (clock w), attempts := attempts w + 1,
                 effects := effects w @ [Request sns]\<rparr>"
  have unf: "fetchDeviceData e sns (int (Suc n)) w
       = fetchDeviceData e sns (int n) (setTimeout e (Fin 1500) ?w1)"
    using len by (subst fetchDeviceData.simps) (simp add: http_request_def b)
  from Suc.IH[of "setTimeout e (Fin 1500) ?w1"] show ?case
    unfolding unf by (auto simp: setTimeout_def)
qed

lemma fetch_too_long:
  "10 < length sns \<Longrightarrow>
     fetchDeviceData e sns retries w = (Inl (Error ''Batch size cannot exceed 10 devices''), w)"
  by (subst fetchDeviceData.simps) simp

lemma fetch_effects_grow:
  "\<exists>ext. effects (snd (fetchDeviceData e sns retries w)) = effects w @ ext"
proof (induction e sns retries w rule: fetchDeviceData.induct)
  case (1 e sns retries w)
  show ?case
  proof (cases "10 < length sns")
    case True
    then show ?thesis by (simp add: fetch_too_long)
  next
    case False
    obtain out w1 where hr: "http_request e sns w = (out, w1)" by (cases "http_request e sns w")
    then have w1: "effects w1 = effects w @ [Request sns]"
      by (auto simp: http_request_def)
    have rec: "\<exists>ext. effects (snd (fetchDeviceData e sns (retries - 1) (setTimeout e ms w1)))
                 = effects w @ ext"
      if ih: "\<exists>ext. effects (snd (fetchDeviceData e sns (retries - 1) (setTimeout e ms w1)))
                 = effects (setTimeout e ms w1) @ ext" for ms
      using ih w1 by (auto simp: setTimeout_def)
    show ?thesis
    proof (cases out)
      case (Response statusCode data)
      note ih = "1.IH"(1,2)[OF False hr[symmetric] Response]
      show ?thesis
        using False hr Response w1 rec ih
        by (subst fetchDeviceData.simps) (auto split: sum.splits)
    next
      case (RequestError msg)
      note ih = "1.IH"(3)[OF False hr[symmetric] RequestError]
      show ?thesis
        using False hr RequestError w1 rec ih
        by (subst fetchDeviceData.simps) auto
    qed
  qed
qed


lemma fetch_not_validation:
  "length sns \<le> 10 \<Longrightarrow>
     fst (fetchDeviceData e sns retries w) \<noteq> Inl (Error ''Batch size cannot exceed 10 devices'')"
proof (induction e sns retries w rule: fetchDeviceData.induct)
  case (1 e sns retries w)
  have nl: "\<not> 10 < length sns" using "1.prems" by simp
  obtain out w1 where hr: "http_request e sns w = (out, w1)" by (cases "http_request e sns w")
  show ?case
  proof (cases out)
    case (Response statusCode data)
    note ih = "1.IH"(1,2)[OF nl hr[symmetric] Response]
    show ?thesis
      using nl hr Response ih "1.prems"
      by (subst fetchDeviceData.simps) (auto split: sum.splits)
  next
    case (RequestError msg)
    note ih = "1.IH"(3)[OF nl hr[symmetric] RequestError]
    show ?thesis
      using nl hr RequestError ih "1.prems"
      by (subst fetchDeviceData.simps) auto
  qed
qed

lemma fetch_first_request:
  assumes "length sns \<le> 10"
  shows "\<exists>rest. effects (snd (fetchDeviceData e sns retries w)) = effects w @ Request sns # rest"
proof -
  have nl: "\<not> 10 < length sns" using assms by simp
  obtain out w1 where hr: "http_request e sns w = (out, w1)" by (cases "http_request e sns w")
  then have w1: "effects w1 = effects w @ [Request sns]"
    by (auto simp: http_request_def)
  have rec: "\<exists>rest. effects (snd (fetchDeviceData e sns r (setTimeout e ms w1)))
                 = effects w @ Request sns # rest" for ms r
    using fetch_effects_grow[of e sns r "setTimeout e ms w1"] w1 by (auto simp: setTimeout_def)
  show ?thesis
  proof (cases out)
    case (Response statusCode data)
    show ?thesis
      using nl hr Response w1 rec
      by (subst fetchDeviceData.simps) (auto split: sum.splits)
  next
    case (RequestError msg)
    show ?thesis
      using nl hr RequestError w1 rec
      by (subst fetchDeviceData.simps) auto
  qed
qed


text \<open>
  C3. A call with the default retry budget, for at most 10 serial numbers, against a
  transport that answers every request with status 429: the request is sent, then
  retried exactly 3 times, each retry after a timer of 1500 ms, 4 requests in all and
  nothing else; the call then fails with the error \<open>Rate limit exceeded after retries\<close>
  (the error the specification calls RateLimitExceeded).
\<close>

theorem fetchDeviceData_always_429:
  assumes "length sns \<le> 10" and "\<forall>k. \<exists>body. transport e k = Response 429 body"
  shows "\<exists>w'. fetchDeviceData e sns default_retries w
           = (Inl (Error ''Rate limit exceeded after retries. Status: 429''), w')
         \<and> attempts w' = attempts w + 4
         \<and> effects w' = effects w @
             [Request sns, Timer (Fin 1500), Request sns, Timer (Fin 1500),
              Request sns, Timer (Fin 1500), Request sns]"
proof -
  from fetch_429_general[OF assms, of 3 w] obtain w' where
    r: "fetchDeviceData e sns (int 3) w
          = (Inl (Error ''Rate limit exceeded after retries. Status: 429''), w')"
    and a: "attempts w' = attempts w + 3 + 1"
    and f: "effects w' = effects w @ concat (replicate 3 [Request sns, Timer (Fin 1500)])
                           @ [Request sns]"
    by blast
  have "attempts w' = attempts w + 4" using a by simp
  moreover have "effects w' = effects w @
             [Request sns, Timer (Fin 1500), Request sns, Timer (Fin 1500),
              Request sns, Timer (Fin 1500), Request sns]"
    using f by (simp add: numeral_3_eq_3)
  ultimately show ?thesis using r by (simp add: default_retries_def)
qed

theorem fetchDeviceData_always_429_witness:
  "length [''SN-000'', ''SN-001''] \<le> 10
   \<and> (\<forall>k. \<exists>body. transport (sample_env (always_respond 429 ''slow down'')) k
                     = Response 429 body)
   \<and> (\<exists>w'. fetchDeviceData (sample_env (always_respond 429 ''slow down''))
              [''SN-000'', ''SN-001''] default_retries sample_world
            = (Inl (Error ''Rate limit exceeded after retries. Status: 429''), w')
          \<and> attempts w' = attempts sample_world + 4
          \<and> effects w' = effects sample_world @
              [Request [''SN-000'', ''SN-001''], Timer (Fin 1500),
               Request [''SN-000'', ''SN-001''], Timer (Fin 1500),
               Request [''SN-000'', ''SN-001''], Timer (Fin 1500),
               Request [''SN-000'', ''SN-001'']])"
proof -
  have h1: "length [''SN-000'', ''SN-001''] \<le> 10" by simp
  have h2: "\<forall>k. \<exists>body. transport (sample_env (always_respond 429 ''slow down'')) k
                     = Response 429 body"
    by (simp add: sample_env_def always_respond_def)
  from fetchDeviceData_always_429[OF h1 h2, of sample_world] h1 h2 show ?thesis by blast
qed

text \<open>
  C6. A call, for at most 10 serial numbers, whose request is answered with status 401
  fails at once with the error \<open>Authentication failed\<close> (the specification's
  AuthenticationError), whatever the retry budget: that one request is the only effect,
  no timer is set and no further request is sent.
\<close>

theorem fetchDeviceData_401_no_retry:
  assumes "length sns \<le> 10" and "transport e (attempts w) = Response 401 body"
  shows "fetchDeviceData e sns retries w
           = (Inl (Error ''Authentication failed. Status: 401''),
              w\<lparr>clock := responseAt e (attempts w) (clock w),
                attempts := attempts w + 1,
                effects := effects w @ [Request sns]\<rparr>)"
  using assms
  by (subst fetchDeviceData.simps) (simp add: http_request_def string_of_nat_401)

theorem fetchDeviceData_401_no_retry_witness:
  "length [''SN-000''] \<le> 10
   \<and> transport (sample_env (always_respond 401 ''denied'')) (attempts sample_world)
       = Response 401 ''denied''
   \<and> fetchDeviceData (sample_env (always_respond 401 ''denied'')) [''SN-000''] 3 sample_world
       = (Inl (Error ''Authentication failed. Status: 401''),
          \<lparr>clock = 1793577600020, attempts = 1, effects = [Request [''SN-000'']]\<rparr>)"
proof -
  have h1: "length [''SN-000''] \<le> 10" by simp
  have h2: "transport (sample_env (always_respond 401 ''denied'')) (attempts sample_world)
       = Response 401 ''denied''"
    by (simp add: sample_env_def always_respond_def)
  from fetchDeviceData_401_no_retry[OF h1 h2, of 3] h1 h2 show ?thesis
    by (simp add: sample_env_def sample_world_def)
qed

text \<open>
  C8. With more than 10 serial numbers the call fails with the error
  \<open>Batch size cannot exceed 10 devices\<close> (the specification's ValidationError) and the
  world is as before: no request was sent. With at most 10 the call does not fail with
  that error, and its first effect is the request for these serial numbers.
\<close>

theorem fetchDeviceData_validation:
  "(10 < length sns \<longrightarrow>
      fetchDeviceData e sns retries w
        = (Inl (Error ''Batch size cannot exceed 10 devices''), w))
   \<and> (length sns \<le> 10 \<longrightarrow>
        fst (fetchDeviceData e sns retries w)
          \<noteq> Inl (Error ''Batch size cannot exceed 10 devices'')
        \<and> (\<exists>rest. effects (snd (fetchDeviceData e sns retries w))
                     = effects w @ Request sns # rest))"
  using fetch_too_long[of sns e retries w] fetch_not_validation[of sns e retries w]
    fetch_first_request[of sns e retries w]
  by blast

theorem fetchDeviceData_validation_witness:
  "10 < length (replicate 11 ''SN-000'')
   \<and> fetchDeviceData (sample_env (always_respond 200 ''{}'')) (replicate 11 ''SN-000'') 3
        sample_world
       = (Inl (Error ''Batch size cannot exceed 10 devices''), sample_world)
   \<and> length (replicate 10 ''SN-000'') \<le> 10
   \<and> fst (fetchDeviceData (sample_env (always_respond 200 ''{}'')) (replicate 10 ''SN-000'') 3
            sample_world)
       \<noteq> Inl (Error ''Batch size cannot exceed 10 devices'')
   \<and> (\<exists>rest. effects (snd (fetchDeviceData (sample_env (always_respond 200 ''{}''))
                              (replicate 10 ''SN-000'') 3 sample_world))
                = effects sample_world @ Request (replicate 10 ''SN-000'') # rest)"
proof -
  have h1: "10 < length (replicate 11 ''SN-000'')" by simp
  have h2: "length (replicate 10 ''SN-000'') \<le> 10" by simp
  from fetchDeviceData_validation
         [of "replicate 11 ''SN-000''" "sample_env (always_respond 200 ''{}'')" 3 sample_world]
       fetchDeviceData_validation
         [of "replicate 10 ''SN-000''" "sample_env (always_respond 200 ''{}'')" 3 sample_world]
       h1 h2
  show ?thesis by blast
qed

section \<open>The rate limiter's spacing\<close>

lemma spaced_mem: "spaced m c l ts \<Longrightarrow> x \<in> set ts \<Longrightarrow> l + m \<le> x \<and> c \<le> x"
proof (induction ts arbitrary: c l)
  case Nil
  then show ?case by simp
next
  case (Cons t ts)
  show ?case
  proof (cases "x = t")
    case True
    with Cons.prems show ?thesis by simp
  next
    case False
    with Cons.prems have "x \<in> set ts" and "spaced m t t ts" by simp_all
    from Cons.IH[OF this(2) this(1)] Cons.prems(1) show ?thesis by simp
  qed
qed

lemma spaced_pairs:
  "spaced m c l ts \<Longrightarrow> i < j \<Longrightarrow> j < length ts \<Longrightarrow> ts ! i + m \<le> ts ! j"
proof (induction ts arbitrary: c l i j)
  case Nil
  then show ?case by simp
next
  case (Cons t ts)
  from Cons.prems obtain j' where j: "j = Suc j'" by (cases j) auto
  have sp: "spaced m t t ts" using Cons.prems by simp
  show ?case
  proof (cases i)
    case 0
    have "ts ! j' \<in> set ts" using Cons.prems j by simp
    from spaced_mem[OF sp this] show ?thesis using 0 j by simp
  next
    case (Suc i')
    from Cons.IH[OF sp, of i' j'] Cons.prems j Suc show ?thesis by simp
  qed
qed

lemma js_sub_Fin: "js_sub (Fin a) (Fin b) = Fin (a - b)"
  by (simp add: js_sub_def)

lemma loop_step:
  assumes "queue rl = fn # rest"
  shows "processQueue_loop e rl w =
     (let now = Date_now w;
          timeSinceLastRequest = js_sub now (lastRequestTime rl);
          waitTime = js_sub (minInterval rl) timeSinceLastRequest;
          sleeps = js_lt timeSinceLastRequest (minInterval rl);
          w1 = (if sleeps then setTimeout e waitTime w else w);
          rl1 = rl\<lparr>queue := rest, lastRequestTime := Date_now w1\<rparr>;
          (result, w2) = fn w1;
          (more, rl2, w3) = processQueue_loop e rl1 w2
      in (\<lparr>started = Date_now w1,
            waited = (if sleeps then Some waitTime else None),
            settled = result\<rparr> # more, rl2, w3))"
  using assms by (subst processQueue_loop.simps) simp

lemma loop_empty: "queue rl = [] \<Longrightarrow> processQueue_loop e rl w = ([], rl, w)"
  by (subst processQueue_loop.simps) simp

lemma loop_step_Fin:
  assumes "queue rl = fn # rest" and "minInterval rl = Fin m" and "lastRequestTime rl = Fin l"
    and "w1 = (if clock w - l < m then setTimeout e (Fin (m - (clock w - l))) w else w)"
    and "fn w1 = (result, w2)"
    and "processQueue_loop e (rl\<lparr>queue := rest, lastRequestTime := Fin (clock w1)\<rparr>) w2
           = (later, rl2, w3)"
  shows "processQueue_loop e rl w =
     (\<lparr>started = Fin (clock w1),
       waited = (if clock w - l < m then Some (Fin (m - (clock w - l))) else None),
       settled = result\<rparr> # later, rl2, w3)"
  using assms
  by (cases "clock w - l < m") (simp_all add: loop_step Let_def Date_now_def js_sub_Fin)

lemma loop_spaced:
  assumes t: "timers_keep_time e"
  shows "\<forall>fn \<in> set (queue rl). clock_moves_on fn \<Longrightarrow> minInterval rl = Fin m \<Longrightarrow>
     lastRequestTime rl = Fin l \<Longrightarrow>
     \<exists>ts. map started (fst (processQueue_loop e rl w)) = map Fin ts
        \<and> length ts = length (queue rl) \<and> spaced m (clock w) l ts"
proof (induction "queue rl" arbitrary: rl w l)
  case Nil
  then show ?case by (simp add: loop_empty)
next
  case (Cons fn rest)
  define w1 where "w1 = (if clock w - l < m then setTimeout e (Fin (m - (clock w - l))) w else w)"
  define rl1 where "rl1 = rl\<lparr>queue := rest, lastRequestTime := Fin (clock w1)\<rparr>"
  obtain result w2 where f: "fn w1 = (result, w2)" by (cases "fn w1")
  obtain later rl2 w3 where r: "processQueue_loop e rl1 w2 = (later, rl2, w3)"
    by (cases "processQueue_loop e rl1 w2")
  have q: "queue rl = fn # rest" using Cons.hyps(2) by simp
  have tk: "clock w \<le> timerAt e (Fin (m - (clock w - l))) (clock w)"
      "clock w + (m - (clock w - l)) \<le> timerAt e (Fin (m - (clock w - l))) (clock w)"
    using t unfolding timers_keep_time_def by blast+
  have c1: "l + m \<le> clock w1 \<and> clock w \<le> clock w1"
    using tk by (auto simp: setTimeout_def w1_def)
  have mo: "clock w1 \<le> clock w2"
    using Cons.prems(1) q f by (auto simp: clock_moves_on_def dest!: spec[where x = w1])
  have "\<exists>ts. map started (fst (processQueue_loop e rl1 w2)) = map Fin ts
        \<and> length ts = length (queue rl1) \<and> spaced m (clock w2) (clock w1) ts"
    using Cons.hyps(1)[of rl1 "clock w1" w2] Cons.prems q by (simp add: rl1_def)
  then obtain ts where ts: "map started later = map Fin ts"
      "length ts = length rest" "spaced m (clock w2) (clock w1) ts"
    using r by (auto simp: rl1_def)
  have sp: "spaced m (clock w1) (clock w1) ts"
    using ts(3) mo by (cases ts) auto
  have "map started (fst (processQueue_loop e rl w)) = map Fin (clock w1 # ts)"
    using loop_step_Fin[OF q Cons.prems(2,3) w1_def f r[unfolded rl1_def]] ts(1) by simp
  then show ?case using ts(2) sp c1 q
    by (intro exI[of _ "clock w1 # ts"]) simp
qed


lemma upd_processing_first:
  "rl\<lparr>processing := b, queue := q, lastRequestTime := t\<rparr>
     = rl\<lparr>queue := q, lastRequestTime := t, processing := b\<rparr>"
  by (cases rl) simp

lemma upd_queue_last:
  "rl\<lparr>lastRequestTime := t, queue := q\<rparr> = rl\<lparr>queue := q, lastRequestTime := t\<rparr>"
  by (cases rl) simp

lemma loop_step_pairs:
  assumes q: "queue rl = fn # rest"
    and w1: "w1 = (if js_lt (js_sub (Date_now w) (lastRequestTime rl)) (minInterval rl)
                   then setTimeout e (js_sub (minInterval rl) (js_sub (Date_now w) (lastRequestTime rl))) w
                   else w)"
    and f: "fn w1 = (result, w2)"
    and r: "processQueue_loop e (rl\<lparr>queue := rest, lastRequestTime := Date_now w1\<rparr>) w2
              = (later, rl2, w3)"
  shows "processQueue_loop e rl w =
     (\<lparr>started = Date_now w1,
       waited = (if js_lt (js_sub (Date_now w) (lastRequestTime rl)) (minInterval rl)
                 then Some (js_sub (minInterval rl) (js_sub (Date_now w) (lastRequestTime rl)))
                 else None),
       settled = result\<rparr> # later, rl2, w3)"
  using f r unfolding w1 by (simp add: loop_step[OF q] Let_def)

lemma loop_state:
  "processQueue_loop e rl w = (adms, rl', w') \<Longrightarrow>
     queue rl' = [] \<and> processing rl' = processing rl \<and> minInterval rl' = minInterval rl
       \<and> requestsPerSecond rl' = requestsPerSecond rl \<and> length adms = length (queue rl)"
proof (induction "queue rl" arbitrary: rl w adms rl' w')
  case Nil
  then show ?case by (simp add: loop_empty)
next
  case (Cons fn rest)
  have q: "queue rl = fn # rest" using Cons.hyps(2) by simp
  define w1 where "w1 = (if js_lt (js_sub (Date_now w) (lastRequestTime rl)) (minInterval rl)
                   then setTimeout e (js_sub (minInterval rl) (js_sub (Date_now w) (lastRequestTime rl))) w
                   else w)"
  define rl1 where "rl1 = rl\<lparr>queue := rest, lastRequestTime := Date_now w1\<rparr>"
  obtain result w2 where f: "fn w1 = (result, w2)" by (cases "fn w1")
  obtain later rl2 w3 where r: "processQueue_loop e rl1 w2 = (later, rl2, w3)"
    by (cases "processQueue_loop e rl1 w2")
  have "rest = queue rl1" by (simp add: rl1_def)
  from Cons.hyps(1)[OF this r]
  have ih: "queue rl2 = []" "processing rl2 = processing rl" "minInterval rl2 = minInterval rl"
    "requestsPerSecond rl2 = requestsPerSecond rl" "length later = length rest"
    by (simp_all add: rl1_def)
  from loop_step_pairs[OF q w1_def f r[unfolded rl1_def]] Cons.prems
  have "rl' = rl2" and "length adms = Suc (length later)" by auto
  then show ?case using ih q by simp
qed

lemma loop_processing:
  "processQueue_loop e rl w = (adms, rl', w') \<Longrightarrow>
     processQueue_loop e (rl\<lparr>processing := b\<rparr>) w = (adms, rl'\<lparr>processing := b\<rparr>, w')"
proof (induction "queue rl" arbitrary: rl w adms rl' w')
  case Nil
  then show ?case by (simp add: loop_empty)
next
  case (Cons fn rest)
  have q: "queue rl = fn # rest" using Cons.hyps(2) by simp
  define w1 where "w1 = (if js_lt (js_sub (Date_now w) (lastRequestTime rl)) (minInterval rl)
                   then setTimeout e (js_sub (minInterval rl) (js_sub (Date_now w) (lastRequestTime rl))) w
                   else w)"
  define rl1 where "rl1 = rl\<lparr>queue := rest, lastRequestTime := Date_now w1\<rparr>"
  obtain result w2 where f: "fn w1 = (result, w2)" by (cases "fn w1")
  obtain later rl2 w3 where r: "processQueue_loop e rl1 w2 = (later, rl2, w3)"
    by (cases "processQueue_loop e rl1 w2")
  have "rest = queue rl1" by (simp add: rl1_def)
  from Cons.hyps(1)[OF this r]
  have ih: "processQueue_loop e
              (rl\<lparr>processing := b\<rparr>\<lparr>queue := rest, lastRequestTime := Date_now w1\<rparr>) w2
            = (later, rl2\<lparr>processing := b\<rparr>, w3)"
    by (simp add: rl1_def upd_processing_first)
  have q': "queue (rl\<lparr>processing := b\<rparr>) = fn # rest" using q by simp
  have w1': "w1 = (if js_lt (js_sub (Date_now w) (lastRequestTime (rl\<lparr>processing := b\<rparr>)))
                         (minInterval (rl\<lparr>processing := b\<rparr>))
                   then setTimeout e (js_sub (minInterval (rl\<lparr>processing := b\<rparr>))
                          (js_sub (Date_now w) (lastRequestTime (rl\<lparr>processing := b\<rparr>)))) w
                   else w)"
    by (simp add: w1_def)
  from loop_step_pairs[OF q w1_def f r[unfolded rl1_def]] Cons.prems
  have e1: "rl' = rl2" "w' = w3"
    and e2: "adms = \<lparr>started = Date_now w1,
       waited = (if js_lt (js_sub (Date_now w) (lastRequestTime rl)) (minInterval rl)
                 then Some (js_sub (minInterval rl) (js_sub (Date_now w) (lastRequestTime rl)))
                 else None),
       settled = result\<rparr> # later"
    by auto
  show ?case
    using loop_step_pairs[OF q' w1' f ih] e1 e2 by simp
qed

lemma loop_split:
  assumes q: "queue rl = fn # rest"
    and a: "processQueue_loop e (rl\<lparr>queue := [fn]\<rparr>) w = (a, r1, w1)"
    and b: "processQueue_loop e (r1\<lparr>queue := rest\<rparr>) w1 = (b, r2, w2)"
  shows "processQueue_loop e rl w = (a @ b, r2, w2)"
proof -
  define v1 where "v1 = (if js_lt (js_sub (Date_now w) (lastRequestTime rl)) (minInterval rl)
                   then setTimeout e (js_sub (minInterval rl) (js_sub (Date_now w) (lastRequestTime rl))) w
                   else w)"
  obtain result v2 where f: "fn v1 = (result, v2)" by (cases "fn v1")
  let ?adm = "\<lparr>started = Date_now v1,
       waited = (if js_lt (js_sub (Date_now w) (lastRequestTime rl)) (minInterval rl)
                 then Some (js_sub (minInterval rl) (js_sub (Date_now w) (lastRequestTime rl)))
                 else None),
       settled = result\<rparr>"
  have q1: "queue (rl\<lparr>queue := [fn]\<rparr>) = fn # []" by simp
  have v1': "v1 = (if js_lt (js_sub (Date_now w) (lastRequestTime (rl\<lparr>queue := [fn]\<rparr>)))
                         (minInterval (rl\<lparr>queue := [fn]\<rparr>))
                   then setTimeout e (js_sub (minInterval (rl\<lparr>queue := [fn]\<rparr>))
                          (js_sub (Date_now w) (lastRequestTime (rl\<lparr>queue := [fn]\<rparr>)))) w
                   else w)"
    by (simp add: v1_def)
  have e: "processQueue_loop e (rl\<lparr>queue := [fn]\<rparr>\<lparr>queue := [], lastRequestTime := Date_now v1\<rparr>) v2
        = ([], rl\<lparr>queue := [fn]\<rparr>\<lparr>queue := [], lastRequestTime := Date_now v1\<rparr>, v2)"
    by (simp add: loop_empty)
  from loop_step_pairs[OF q1 v1' f e] a
  have a': "a = [?adm]" "r1 = rl\<lparr>queue := [], lastRequestTime := Date_now v1\<rparr>" "w1 = v2"
    by simp_all
  have "processQueue_loop e (rl\<lparr>queue := rest, lastRequestTime := Date_now v1\<rparr>) v2 = (b, r2, w2)"
    using b a' by (simp add: upd_queue_last)
  from loop_step_pairs[OF q v1_def f this] a' show ?thesis by simp
qed


lemma upd_queue_id: "queue rl = q \<Longrightarrow> rl\<lparr>queue := q\<rparr> = rl"
  by (cases rl) simp

lemma upd_processing_id: "processing rl = b \<Longrightarrow> rl\<lparr>processing := b\<rparr> = rl"
  by (cases rl) simp

lemma upd_queue_processing_queue:
  "rl\<lparr>queue := q, processing := b, queue := q'\<rparr> = rl\<lparr>queue := q', processing := b\<rparr>"
  by (cases rl) simp

lemma upd_processing_queue_processing:
  "rl\<lparr>processing := b, queue := q, processing := b'\<rparr> = rl\<lparr>queue := q, processing := b'\<rparr>"
  by (cases rl) simp

lemma processQueue_nonempty:
  assumes "\<not> processing rl" and "fns \<noteq> []"
    and "processQueue_loop e (rl\<lparr>queue := fns, processing := True\<rparr>) w = (adms, rl', w')"
  shows "processQueue e (rl\<lparr>queue := fns\<rparr>) w = (adms, rl'\<lparr>processing := False\<rparr>, w')"
  using assms by (simp add: processQueue_def)

lemma execute_all_processQueue:
  "queue rl = [] \<Longrightarrow> \<not> processing rl \<Longrightarrow>
     execute_all e fns rl w = processQueue e (rl\<lparr>queue := fns\<rparr>) w"
proof (induction fns arbitrary: rl w)
  case Nil
  then show ?case by (simp add: processQueue_def upd_queue_id)
next
  case (Cons fn rest)
  obtain a r1 w1 where L1:
    "processQueue_loop e (rl\<lparr>queue := [fn], processing := True\<rparr>) w = (a, r1, w1)"
    by (cases "processQueue_loop e (rl\<lparr>queue := [fn], processing := True\<rparr>) w")
  from loop_state[OF L1] have s1: "queue r1 = []" "processing r1 = True" by simp_all
  have ex: "execute e fn rl w = (a, r1\<lparr>processing := False\<rparr>, w1)"
    using processQueue_nonempty[OF Cons.prems(2) _ L1] Cons.prems(1)
    by (simp add: execute_def)
  obtain b r2 w2 where L2: "processQueue_loop e (r1\<lparr>queue := rest\<rparr>) w1 = (b, r2, w2)"
    by (cases "processQueue_loop e (r1\<lparr>queue := rest\<rparr>) w1")
  have ih: "execute_all e rest (r1\<lparr>processing := False\<rparr>) w1
              = processQueue e (r1\<lparr>processing := False\<rparr>\<lparr>queue := rest\<rparr>) w1"
    using Cons.IH[of "r1\<lparr>processing := False\<rparr>" w1] s1 by simp
  have rhs0: "processQueue_loop e (rl\<lparr>queue := fn # rest, processing := True\<rparr>) w
                = (a @ b, r2, w2)"
  proof (rule loop_split[where fn = fn and rest = rest and ?r1.0 = r1 and ?w1.0 = w1])
    show "queue (rl\<lparr>queue := fn # rest, processing := True\<rparr>) = fn # rest" by simp
    show "processQueue_loop e (rl\<lparr>queue := fn # rest, processing := True\<rparr>\<lparr>queue := [fn]\<rparr>) w
            = (a, r1, w1)"
      using L1 by (simp add: upd_queue_processing_queue)
    show "processQueue_loop e (r1\<lparr>queue := rest\<rparr>) w1 = (b, r2, w2)" by (rule L2)
  qed
  have rhs: "processQueue e (rl\<lparr>queue := fn # rest\<rparr>) w = (a @ b, r2\<lparr>processing := False\<rparr>, w2)"
    using processQueue_nonempty[OF Cons.prems(2) _ rhs0] by simp
  have lhs2: "execute_all e rest (r1\<lparr>processing := False\<rparr>) w1 = (b, r2\<lparr>processing := False\<rparr>, w2)"
  proof (cases "rest = []")
    case True
    with L2 s1 have "b = []" "r2 = r1" "w2 = w1"
      by (simp_all add: loop_empty upd_queue_id)
    with True show ?thesis by simp
  next
    case False
    have "processQueue_loop e (r1\<lparr>queue := rest\<rparr>\<lparr>processing := True\<rparr>) w1
            = (b, r2\<lparr>processing := True\<rparr>, w2)"
      by (rule loop_processing[OF L2])
    then have "processQueue_loop e (r1\<lparr>processing := False\<rparr>\<lparr>queue := rest, processing := True\<rparr>) w1
            = (b, r2\<lparr>processing := True\<rparr>, w2)"
      by (simp add: upd_processing_queue_processing)
    from processQueue_nonempty[OF _ False this] ih show ?thesis by simp
  qed
  show ?case
    using ex lhs2 rhs by simp
qed


lemma fetch_clock_moves_on:
  assumes "\<forall>k t. t \<le> responseAt e k t" and "\<forall>ms t. t \<le> timerAt e ms t"
  shows "clock w \<le> clock (snd (fetchDeviceData e sns retries w))"
  using assms
proof (induction e sns retries w rule: fetchDeviceData.induct)
  case (1 e sns retries w)
  show ?case
  proof (cases "10 < length sns")
    case True
    then show ?thesis by (simp add: fetch_too_long)
  next
    case False
    obtain out w1 where hr: "http_request e sns w = (out, w1)" by (cases "http_request e sns w")
    then have w1: "clock w \<le> clock w1"
      using "1.prems"(1) by (auto simp: http_request_def)
    have st: "clock w \<le> clock (setTimeout e ms w1)" for ms
      using "1.prems"(2) w1 by (auto simp: setTimeout_def intro: order_trans)
    have rec: "clock w \<le> clock (snd (fetchDeviceData e sns (retries - 1) (setTimeout e ms w1)))"
      if ih: "clock (setTimeout e ms w1)
                \<le> clock (snd (fetchDeviceData e sns (retries - 1) (setTimeout e ms w1)))" for ms
      using ih st[of ms] by (rule order_trans[rotated])
    show ?thesis
    proof (cases out)
      case (Response statusCode data)
      note ih = "1.IH"(1,2)[OF False hr[symmetric] Response]
      show ?thesis
        using False hr Response w1 rec ih "1.prems"
        by (subst fetchDeviceData.simps) (auto split: sum.splits)
    next
      case (RequestError msg)
      note ih = "1.IH"(3)[OF False hr[symmetric] RequestError]
      show ?thesis
        using False hr RequestError w1 rec ih "1.prems"
        by (subst fetchDeviceData.simps) auto
    qed
  qed
qed

lemma new_RateLimiter_fields:
  "rps \<noteq> 0 \<Longrightarrow> minInterval (new_RateLimiter (Fin rps)) = Fin (1000 / rps)"
  "lastRequestTime (new_RateLimiter x) = Fin 0"
  "queue (new_RateLimiter x) = []"
  "processing (new_RateLimiter x) = False"
  by (simp_all add: new_RateLimiter_def)

text \<open>
  C2, as the code has it. A limiter built with a finite rate other than 0 is given a
  sequence of work items, in an environment where a timer of \<open>d\<close> ms fires no earlier
  than \<open>d\<close> ms after it is set and no work item sets the clock back. Submitting the
  items one after the other through \<open>execute\<close>, or putting them all on the queue before
  \<open>processQueue\<close> runs, gives the same admissions, one per item. No two of them begin
  less than \<open>minInterval\<close> apart, measured between the values stored in
  \<open>lastRequestTime\<close>. The first admission begins at once and without a timer when the
  clock reads at least \<open>minInterval\<close> at that moment (\<open>lastRequestTime\<close> starts at 0).
\<close>

theorem rate_gate_spacing:
  assumes "rps \<noteq> 0" and "timers_keep_time e" and "\<forall>fn \<in> set fns. clock_moves_on fn"
  shows "\<exists>adms rl' w'.
      execute_all e fns (new_RateLimiter (Fin rps)) w = (adms, rl', w')
      \<and> processQueue e ((new_RateLimiter (Fin rps))\<lparr>queue := fns\<rparr>) w = (adms, rl', w')
      \<and> length adms = length fns
      \<and> minInterval rl' = js_div (Fin 1000) (Fin rps)
      \<and> (\<forall>i j. i < j \<and> j < length adms \<longrightarrow>
            \<not> js_lt (js_sub (started (adms ! j)) (started (adms ! i))) (minInterval rl'))
      \<and> (fns \<noteq> [] \<and> \<not> js_lt (Date_now w) (minInterval rl') \<longrightarrow>
            waited (hd adms) = None \<and> started (hd adms) = Date_now w)"
proof -
  let ?fresh = "new_RateLimiter (Fin rps) :: 'a RateLimiter"
  let ?m = "1000 / rps"
  have eq: "execute_all e fns ?fresh w = processQueue e (?fresh\<lparr>queue := fns\<rparr>) w"
    by (rule execute_all_processQueue) (simp_all add: new_RateLimiter_fields)
  show ?thesis
  proof (cases "fns = []")
    case True
    then show ?thesis using eq assms(1)
      by (simp add: processQueue_def new_RateLimiter_def)
  next
    case False
    let ?busy = "?fresh\<lparr>queue := fns, processing := True\<rparr>"
    obtain adms r1 w1 where L: "processQueue_loop e ?busy w = (adms, r1, w1)"
      by (cases "processQueue_loop e ?busy w")
    have pq: "processQueue e (?fresh\<lparr>queue := fns\<rparr>) w = (adms, r1\<lparr>processing := False\<rparr>, w1)"
      by (rule processQueue_nonempty[of ?fresh fns e w adms r1 w1, OF _ False L])
         (simp add: new_RateLimiter_fields)
    have mi: "minInterval ?busy = Fin ?m" and la: "lastRequestTime ?busy = Fin 0"
      using assms(1) by (simp_all add: new_RateLimiter_fields)
    from loop_state[OF L] mi have st: "length adms = length fns" "minInterval r1 = Fin ?m"
      by simp_all
    from loop_spaced[OF assms(2), of ?busy ?m 0 w] assms(3) mi la L
    obtain ts where ts: "map started adms = map Fin ts" "spaced ?m (clock w) 0 ts"
      by auto
    have len: "length ts = length adms" using ts(1) by (metis length_map)
    have nth: "started (adms ! i) = Fin (ts ! i)" if "i < length adms" for i
      using ts(1) that len by (metis nth_map)
    have gaps: "\<not> js_lt (js_sub (started (adms ! j)) (started (adms ! i))) (Fin ?m)"
      if "i < j" "j < length adms" for i j
    proof -
      from spaced_pairs[OF ts(2) that(1)] that(2) len have "ts ! i + ?m \<le> ts ! j" by simp
      then show ?thesis using nth[of i] nth[of j] that by (simp add: js_sub_Fin)
    qed
    have first: "waited (hd adms) = None \<and> started (hd adms) = Date_now w"
      if "\<not> js_lt (Date_now w) (Fin ?m)"
    proof -
      from False obtain fn rest where q: "queue ?busy = fn # rest" by (cases fns) auto
      from that have nl: "\<not> clock w < ?m" by (simp add: Date_now_def)
      obtain result w2 where f: "fn w = (result, w2)" by (cases "fn w")
      obtain later rl2 w3 where
        r: "processQueue_loop e (?busy\<lparr>queue := rest, lastRequestTime := Fin (clock w)\<rparr>) w2
              = (later, rl2, w3)"
        by (cases "processQueue_loop e (?busy\<lparr>queue := rest, lastRequestTime := Fin (clock w)\<rparr>) w2")
      have "processQueue_loop e ?busy w =
         (\<lparr>started = Fin (clock w),
           waited = (if clock w - 0 < ?m then Some (Fin (?m - (clock w - 0))) else None),
           settled = result\<rparr> # later, rl2, w3)"
        by (rule loop_step_Fin[OF q mi la _ _ r]) (simp_all add: nl f)
      with L nl show ?thesis by (auto simp: Date_now_def)
    qed
    show ?thesis
      using eq pq st gaps first assms(1) by (simp add: False)
  qed
qed


lemma sample_env_timers: "timers_keep_time (sample_env t)"
  by (simp add: timers_keep_time_def sample_env_def)

lemma sample_env_fetch_moves_on:
  "clock_moves_on (fetchDeviceData (sample_env t) sns retries)"
  unfolding clock_moves_on_def
  by (intro allI fetch_clock_moves_on) (simp_all add: sample_env_def split: number.splits)

theorem rate_gate_spacing_witness:
  "(1 :: rat) \<noteq> 0
   \<and> timers_keep_time (sample_env (always_respond 200 ''{}''))
   \<and> clock_moves_on
         (fetchDeviceData (sample_env (always_respond 200 ''{}'')) [''SN-000''] default_retries)
   \<and> clock_moves_on
         (fetchDeviceData (sample_env (always_respond 200 ''{}'')) [''SN-001''] default_retries)
   \<and> (\<exists>adms rl' w'.
      execute_all (sample_env (always_respond 200 ''{}''))
        [fetchDeviceData (sample_env (always_respond 200 ''{}'')) [''SN-000''] default_retries,
         fetchDeviceData (sample_env (always_respond 200 ''{}'')) [''SN-001''] default_retries]
        (new_RateLimiter (Fin 1)) sample_world = (adms, rl', w')
      \<and> length adms = 2
      \<and> minInterval rl' = js_div (Fin 1000) (Fin 1)
      \<and> (\<forall>i j. i < j \<and> j < length adms \<longrightarrow>
            \<not> js_lt (js_sub (started (adms ! j)) (started (adms ! i))) (minInterval rl'))
      \<and> (\<not> js_lt (Date_now sample_world) (minInterval rl') \<longrightarrow>
            waited (hd adms) = None \<and> started (hd adms) = Date_now sample_world))"
proof -
  let ?e = "sample_env (always_respond 200 ''{}'')"
  let ?fns = "[fetchDeviceData ?e [''SN-000''] default_retries,
               fetchDeviceData ?e [''SN-001''] default_retries]"
  have h1: "(1 :: rat) \<noteq> 0" by simp
  have h2: "timers_keep_time ?e" by (rule sample_env_timers)
  have h3: "\<forall>fn \<in> set ?fns. clock_moves_on fn" by (simp add: sample_env_fetch_moves_on)
  from rate_gate_spacing[OF h1 h2 h3, of sample_world] obtain adms rl' w' where
    "execute_all ?e ?fns (new_RateLimiter (Fin 1)) sample_world = (adms, rl', w')"
    "length adms = length ?fns"
    "minInterval rl' = js_div (Fin 1000) (Fin 1)"
    "\<forall>i j. i < j \<and> j < length adms \<longrightarrow>
            \<not> js_lt (js_sub (started (adms ! j)) (started (adms ! i))) (minInterval rl')"
    "?fns \<noteq> [] \<and> \<not> js_lt (Date_now sample_world) (minInterval rl') \<longrightarrow>
            waited (hd adms) = None \<and> started (hd adms) = Date_now sample_world"
    by blast
  then show ?thesis
    using h1 h2 sample_env_fetch_moves_on
    by (intro conjI exI[of _ adms] exI[of _ rl'] exI[of _ w']) simp_all
qed

text \<open>Two batches through the limiter of the orchestrator, 20 ms per request.\<close>

lemma rate_gate_example:
  "map (\<lambda>a. (started a, waited a))
     (fst (execute_all (sample_env (always_respond 200 ''{}''))
        [fetchDeviceData (sample_env (always_respond 200 ''{}'')) [''SN-000''] default_retries,
         fetchDeviceData (sample_env (always_respond 200 ''{}'')) [''SN-001''] default_retries]
        (new_RateLimiter (Fin 1)) sample_world))
   = [(Fin 1793577600000, None), (Fin 1793577601000, Some (Fin 980))]"
  by code_simp

text \<open>
  The claim as stated (the first admission always executes immediately) fails for a
  limiter built with the rate \<open>10^-10\<close> per second: \<open>minInterval\<close> is \<open>10^13\<close> ms, more than the
  clock reads in the year 2026, and the first admission sleeps for the difference.
\<close>

theorem rate_gate_first_admission_counterexample:
  "map waited
     (fst (execute_all (sample_env (always_respond 200 ''{}''))
        [fetchDeviceData (sample_env (always_respond 200 ''{}'')) [''SN-000''] default_retries]
        (new_RateLimiter (Fin (1 / 10 ^ 10))) sample_world))
   = [Some (Fin 8206422400000)]"
  by code_simp

section \<open>The orchestrator's records\<close>

lemma execute_idle:
  assumes "queue rl = []" and "\<not> processing rl"
  shows "\<exists>w1 adm rl'. execute e fn rl w = ([adm], rl', snd (fn w1)) \<and> settled adm = fst (fn w1)
           \<and> queue rl' = [] \<and> \<not> processing rl' \<and> attempts w1 = attempts w"
proof -
  let ?busy = "rl\<lparr>queue := [fn], processing := True\<rparr>"
  define w1 where "w1 = (if js_lt (js_sub (Date_now w) (lastRequestTime ?busy)) (minInterval ?busy)
                   then setTimeout e (js_sub (minInterval ?busy) (js_sub (Date_now w) (lastRequestTime ?busy))) w
                   else w)"
  obtain result w2 where f: "fn w1 = (result, w2)" by (cases "fn w1")
  let ?done = "?busy\<lparr>queue := [], lastRequestTime := Date_now w1\<rparr>"
  have q: "queue ?busy = fn # []" by simp
  have r: "processQueue_loop e ?done w2 = ([], ?done, w2)" by (simp add: loop_empty)
  note L = loop_step_pairs[OF q w1_def f r]
  note pq = processQueue_nonempty[of rl "[fn]", OF assms(2) _ L]
  have a: "attempts w1 = attempts w" by (simp add: w1_def setTimeout_def)
  show ?thesis
    using pq f a assms(1)
    by (intro exI[of _ w1]) (simp add: execute_def)
qed


lemma process_batch_idle:
  assumes "queue (rateLimiter r) = []" and "\<not> processing (rateLimiter r)"
  shows "\<exists>w1 rl'. attempts w1 = attempts w \<and> queue rl' = [] \<and> \<not> processing rl'
           \<and> process_batch e i b r w =
               Some (after_await (i + 1) b (fst (fetchDeviceData e b default_retries w1))
                       (r\<lparr>rateLimiter := rl'\<rparr>),
                     snd (fetchDeviceData e b default_retries w1))"
proof -
  from execute_idle[OF assms, of e "fetchDeviceData e b default_retries" w]
  obtain w1 adm rl' where
    ex: "execute e (fetchDeviceData e b default_retries) (rateLimiter r) w
           = ([adm], rl', snd (fetchDeviceData e b default_retries w1))"
    and se: "settled adm = fst (fetchDeviceData e b default_retries w1)"
    and st: "queue rl' = []" "\<not> processing rl'" "attempts w1 = attempts w"
    by blast
  show ?thesis
    using st se by (intro exI[of _ w1] exI[of _ rl']) (simp add: process_batch_def ex)
qed

lemma fetch_200:
  assumes "length sns \<le> 10" and "transport e (attempts w) = Response 200 body"
    and "JSON_parse e body = Inr v"
  shows "fst (fetchDeviceData e sns retries w) = Inr v"
  using assms by (subst fetchDeviceData.simps) (simp add: http_request_def)

lemma after_await_no_data:
  "after_await n b (Inr (JObj [])) r =
     r\<lparr>allResults := allResults r @ [JObj []],
       errors := errors r @
         [\<lparr>batch = n, serialNumbers = b, error = message (cannot_read ''undefined'' ''length'')\<rparr>]\<rparr>"
  by (simp add: after_await_def Let_def)

lemma process_batches_no_data:
  assumes tr: "\<forall>k. transport e k = Response 200 body" and pa: "JSON_parse e body = Inr (JObj [])"
    and len: "\<forall>b \<in> set batches. length b \<le> 10"
  shows "queue (rateLimiter r) = [] \<Longrightarrow> \<not> processing (rateLimiter r) \<Longrightarrow>
     \<exists>r' w'. process_batches e batches i r w = Some (r', w')
       \<and> allResults r' = allResults r @ replicate (length batches - i) (JObj [])
       \<and> map batch (errors r') = map batch (errors r) @ [i + 1 ..< length batches + 1]
       \<and> map error (errors r')
           = map error (errors r)
             @ replicate (length batches - i) (message (cannot_read ''undefined'' ''length''))"
proof (induction "length batches - i" arbitrary: i r w)
  case 0
  then show ?case by (subst process_batches.simps) simp
next
  case (Suc n)
  then have lt: "i < length batches" by simp
  let ?b = "batches ! i"
  have lb: "length ?b \<le> 10" using len lt by simp
  from process_batch_idle[OF Suc.prems, of w e i ?b]
  obtain w1 rl' where st: "queue rl' = []" "\<not> processing rl'"
    and pb: "process_batch e i ?b r w =
               Some (after_await (i + 1) ?b (fst (fetchDeviceData e ?b default_retries w1))
                       (r\<lparr>rateLimiter := rl'\<rparr>),
                     snd (fetchDeviceData e ?b default_retries w1))"
    by blast
  have res: "fst (fetchDeviceData e ?b default_retries w1) = Inr (JObj [])"
    using fetch_200[OF lb _ pa] tr by simp
  let ?r1 = "after_await (i + 1) ?b (Inr (JObj [])) (r\<lparr>rateLimiter := rl'\<rparr>)"
  let ?w' = "snd (fetchDeviceData e ?b default_retries w1)"
  have r1: "queue (rateLimiter ?r1) = []" "\<not> processing (rateLimiter ?r1)"
    "allResults ?r1 = allResults r @ [JObj []]"
    "map batch (errors ?r1) = map batch (errors r) @ [i + 1]"
    "map error (errors ?r1) = map error (errors r) @ [message (cannot_read ''undefined'' ''length'')]"
    using st by (simp_all add: after_await_no_data)
  have n: "n = length batches - (i + 1)" using Suc.hyps(2) by simp
  from Suc.hyps(1)[OF n r1(1,2), of ?w'] obtain r' w' where
    ih: "process_batches e batches (i + 1) ?r1 ?w' = Some (r', w')"
      "allResults r' = allResults ?r1 @ replicate (length batches - (i + 1)) (JObj [])"
      "map batch (errors r') = map batch (errors ?r1) @ [i + 1 + 1 ..< length batches + 1]"
      "map error (errors r')
           = map error (errors ?r1)
             @ replicate (length batches - (i + 1)) (message (cannot_read ''undefined'' ''length''))"
    by blast
  have unf: "process_batches e batches i r w = Some (r', w')"
    using lt pb res ih(1) by (subst process_batches.simps) simp
  have rep: "replicate (length batches - i) x = x # replicate (length batches - (i + 1)) x" for x :: 'x
    using lt by (simp add: Suc_diff_Suc flip: replicate_Suc)
  have upt: "[i + 1 ..< length batches + 1] = (i + 1) # [i + 1 + 1 ..< length batches + 1]"
    using lt by (simp add: upt_conv_Cons)
  show ?case
    using unf ih(2,3,4) r1(3,4,5) by (simp only: rep upt) simp
qed


lemma chunk_le: "0 < k \<Longrightarrow> b \<in> set (chunks k xs) \<Longrightarrow> length b \<le> k"
proof -
  assume k: "0 < k" and "b \<in> set (chunks k xs)"
  then obtain j where j: "j < length (chunks k xs)" "b = chunks k xs ! j"
    by (auto simp: in_set_conv_nth)
  from chunk_sizes[OF k j(1)] j(2) show ?thesis by (auto split: if_splits)
qed

lemma batches_500:
  "\<exists>batches. createBatches (generateSerialNumbers 500) 10 = Some batches
     \<and> length batches = 50 \<and> (\<forall>b \<in> set batches. length b \<le> 10)"
proof -
  let ?xs = "generateSerialNumbers 500"
  have cb: "createBatches ?xs 10 = Some (chunks 10 ?xs)"
    using createBatches_chunks[of 10 ?xs] by simp
  have "length ?xs = 500" by (simp add: generateSerialNumbers_def)
  with length_chunks_bounds[of 10 ?xs]
  have "length (chunks 10 ?xs) = 50" by simp
  moreover have "\<forall>b \<in> set (chunks 10 ?xs). length b \<le> 10"
    using chunk_le[of 10 _ ?xs] by simp
  ultimately show ?thesis using cb by simp
qed

lemma aggregateResults_no_records:
  "\<exists>a. aggregateResults ts (replicate n (JObj [])) = Inr a"
  using aggregateResults_Inr_iff[of ts "replicate n (JObj [])"]
  by (simp add: records_def)



lemma after_await_Inl:
  "after_await n b (Inl err) r =
     r\<lparr>errors := errors r @ [\<lparr>batch = n, serialNumbers = b, error = message err\<rparr>]\<rparr>"
  by (simp add: after_await_def)

lemma after_await_Inr:
  "\<exists>es. after_await n b (Inr v) r = r\<lparr>allResults := allResults r @ [v], errors := errors r @ es\<rparr>
        \<and> (es = [] \<or> (\<exists>m. es = [\<lparr>batch = n, serialNumbers = b, error = m\<rparr>]))"
proof (cases "get v ''data''")
  case (Inl err)
  then show ?thesis
    by (intro exI[of _ "[\<lparr>batch = n, serialNumbers = b, error = message err\<rparr>]"])
       (simp add: after_await_def Let_def)
next
  case (Inr d)
  show ?thesis
  proof (cases "get d ''length''")
    case (Inl err)
    with Inr show ?thesis
      by (intro exI[of _ "[\<lparr>batch = n, serialNumbers = b, error = message err\<rparr>]"])
         (simp add: after_await_def Let_def)
  next
    case len: (Inr len)
    show ?thesis
    proof (cases "ToString_error len")
      case None
      with len Inr show ?thesis
        by (intro exI[of _ "[]"]) (simp add: after_await_def Let_def)
    next
      case (Some err)
      with len Inr show ?thesis
        by (intro exI[of _ "[\<lparr>batch = n, serialNumbers = b, error = message err\<rparr>]"])
           (simp add: after_await_def Let_def)
    qed
  qed
qed

lemma after_await_records:
  "rateLimiter (after_await n b res r) = rateLimiter r
   \<and> length (allResults r) + length (errors r) + 1
     \<le> length (allResults (after_await n b res r)) + length (errors (after_await n b res r))
   \<and> length (allResults (after_await n b res r)) + length (errors (after_await n b res r))
     \<le> length (allResults r) + length (errors r) + 2"
proof (cases res)
  case (Inl err)
  then show ?thesis by (simp add: after_await_Inl)
next
  case (Inr v)
  from after_await_Inr[of n b v r] obtain es where
    es: "after_await n b (Inr v) r = r\<lparr>allResults := allResults r @ [v], errors := errors r @ es\<rparr>"
      "es = [] \<or> (\<exists>m. es = [\<lparr>batch = n, serialNumbers = b, error = m\<rparr>])"
    by blast
  from es(2) have "length es \<le> 1" by auto
  with Inr es(1) show ?thesis by simp
qed

text \<open>
  Whatever the requests return, the loop of the orchestrator reaches its end: no batch
  stops the run, and every batch leaves one record or two.
\<close>

lemma process_batches_reaches_end:
  "queue (rateLimiter r) = [] \<Longrightarrow> \<not> processing (rateLimiter r) \<Longrightarrow>
     \<exists>r' w'. process_batches e batches i r w = Some (r', w')
       \<and> length (allResults r) + length (errors r) + (length batches - i)
            \<le> length (allResults r') + length (errors r')
       \<and> length (allResults r') + length (errors r')
            \<le> length (allResults r) + length (errors r) + 2 * (length batches - i)"
proof (induction "length batches - i" arbitrary: i r w)
  case 0
  then show ?case by (subst process_batches.simps) simp
next
  case (Suc n)
  then have lt: "i < length batches" by simp
  let ?b = "batches ! i"
  from process_batch_idle[OF Suc.prems, of w e i ?b]
  obtain w1 rl' where st: "queue rl' = []" "\<not> processing rl'"
    and pb: "process_batch e i ?b r w =
               Some (after_await (i + 1) ?b (fst (fetchDeviceData e ?b default_retries w1))
                       (r\<lparr>rateLimiter := rl'\<rparr>),
                     snd (fetchDeviceData e ?b default_retries w1))"
    by blast
  let ?r1 = "after_await (i + 1) ?b (fst (fetchDeviceData e ?b default_retries w1))
               (r\<lparr>rateLimiter := rl'\<rparr>)"
  let ?w' = "snd (fetchDeviceData e ?b default_retries w1)"
  have idle: "queue (rateLimiter ?r1) = []" "\<not> processing (rateLimiter ?r1)"
    using st after_await_records[of "i + 1" ?b _ "r\<lparr>rateLimiter := rl'\<rparr>"] by simp_all
  have lo: "length (allResults r) + length (errors r) + 1
              \<le> length (allResults ?r1) + length (errors ?r1)"
    using after_await_records[of "i + 1" ?b _ "r\<lparr>rateLimiter := rl'\<rparr>"] by simp
  have hi: "length (allResults ?r1) + length (errors ?r1)
              \<le> length (allResults r) + length (errors r) + 2"
    using after_await_records[of "i + 1" ?b _ "r\<lparr>rateLimiter := rl'\<rparr>"] by simp
  have n: "n = length batches - (i + 1)" using Suc.hyps(2) by simp
  from Suc.hyps(1)[OF n idle, of ?w'] obtain r' w' where
    ih: "process_batches e batches (i + 1) ?r1 ?w' = Some (r', w')"
      "length (allResults ?r1) + length (errors ?r1) + (length batches - (i + 1))
            \<le> length (allResults r') + length (errors r')"
      "length (allResults r') + length (errors r')
            \<le> length (allResults ?r1) + length (errors ?r1) + 2 * (length batches - (i + 1))"
    by blast
  have unf: "process_batches e batches i r w = Some (r', w')"
    using lt pb ih(1) by (subst process_batches.simps) simp
  have d: "length batches - i = Suc n" "length batches - (i + 1) = n"
    using Suc.hyps(2) by simp_all
  show ?case
    unfolding d using unf ih(2,3)[unfolded d] lo hi
    by (intro exI[of _ r'] exI[of _ w']) simp
qed


text \<open>
  C4. A failed call is pushed as a failure with the batch number, the serial numbers of
  the batch and the message of the error, and the loop goes on to the next batch
  (\<open>after_await_Inl\<close>, \<open>process_batches_reaches_end\<close>). But a batch is not always
  resolved exactly once. The log line inside the \<open>try\<close> block reads
  \<open>result.data.length\<close> after the result was pushed; when the payload has no \<open>data\<close>, that
  read throws, the \<open>catch\<close> block pushes a failure for the same batch, and the batch is
  counted as successful and as failed. Against a server that answers every request with
  status 200 and the body \<open>{}\<close>, each of the 50 batches is counted on both sides.
\<close>

theorem aggregateAllDevices_counts_batch_twice:
  "\<exists>rep w'. aggregateAllDevices (sample_env (always_respond 200 ''{}'')) sample_world
               = Some (Inr rep, w')
     \<and> batchesProcessed rep = 50 \<and> batchesSuccessful rep = 50 \<and> batchesFailed rep = 50
     \<and> map batch (report_errors rep) = [1 ..< 51]"
proof -
  let ?e = "sample_env (always_respond 200 ''{}'')"
  let ?r0 = "\<lparr>allResults = [], errors = [], rateLimiter = new_RateLimiter (Fin 1)\<rparr>"
  from batches_500 obtain batches where
    b: "createBatches (generateSerialNumbers 500) 10 = Some batches" "length batches = 50"
       "\<forall>b \<in> set batches. length b \<le> 10"
    by blast
  have tr: "\<forall>k. transport ?e k = Response 200 ''{}''"
    by (simp add: sample_env_def always_respond_def)
  have pa: "JSON_parse ?e ''{}'' = Inr (JObj [])" by (simp add: sample_env_def)
  from process_batches_no_data[OF tr pa b(3), of ?r0 0 sample_world]
  obtain r' w' where
    pb: "process_batches ?e batches 0 ?r0 sample_world = Some (r', w')"
    and ar: "allResults r' = replicate 50 (JObj [])"
    and er: "map batch (errors r') = [1 ..< 51]"
    using b(2) by (auto simp: new_RateLimiter_def)
  from aggregateResults_no_records[of "Number_toString ?e" 50] obtain a where
    a: "aggregateResults (Number_toString ?e) (replicate 50 (JObj [])) = Inr a" by blast
  have "length (map batch (errors r')) = length [1 ..< (51 :: nat)]" using er by simp
  then have le: "length (errors r') = 50" by simp
  show ?thesis
    using b(1,2) pb ar er a le by (simp add: aggregateAllDevices_def)
qed

end
